theory Spec2Isabelle
  imports Main "HOL-Library.Multiset"
begin

section \<open>JavaScript values as the proxy sees them\<close>

text \<open>
  Everything the handler of \<^verbatim>\<open>server.js\<close> (first variant, the one that tags) touches is
  either a value that came out of \<^verbatim>\<open>JSON.parse\<close> (the webhook body, the bodies of the
  upstream responses) or \<^verbatim>\<open>undefined\<close> (a property that is not there).

  \<^item> \<open>JNum\<close> holds an integral number; fractions, and integers so large that JavaScript
    prints them with an exponent, are outside the model.
  \<^item> \<open>JStr\<close> holds the string as the list of its characters; \<^verbatim>\<open>Buffer.from(s, 'utf8')\<close>
    is then the list itself.
  \<^item> \<open>JObj\<close> lists the own properties of an object; a key is looked up at its first
    binding.
\<close>

datatype json =
    JUndef
  | JNull
  | JBool bool
  | JNum int
  | JStr string
  | JArr "json list"
  | JObj "(string \<times> json) list"

text \<open>An exception object: its \<^verbatim>\<open>name\<close> and its \<^verbatim>\<open>message\<close>.\<close>

datatype js_error = JsError (err_name: string) (message: string)

text \<open>
  The \<^verbatim>\<open>TypeError\<close>s of the engine. Their wording is the engine's own (V8's is used
  here); the program only ever tests a message for emptiness.
\<close>

definition not_primitive :: js_error where
  "not_primitive = JsError ''TypeError'' ''Cannot convert object to primitive value''"

definition not_readable :: "string \<Rightarrow> js_error" where
  "not_readable k = JsError ''TypeError'' (''Cannot read properties of null or undefined (reading '' @ k @ '')'')"

definition not_a_function :: "string \<Rightarrow> js_error" where
  "not_a_function k = JsError ''TypeError'' (k @ '' is not a function'')"

definition syntax_error :: js_error where
  "syntax_error = JsError ''SyntaxError'' ''Unexpected token in JSON''"

text \<open>Truthiness: \<^verbatim>\<open>!v\<close> is \<open>\<not> truthy v\<close>.\<close>

fun truthy :: "json \<Rightarrow> bool" where
  "truthy JUndef = False"
| "truthy JNull = False"
| "truthy (JBool b) = b"
| "truthy (JNum n) = (n \<noteq> 0)"
| "truthy (JStr s) = (s \<noteq> [])"
| "truthy (JArr xs) = True"
| "truthy (JObj kvs) = True"

text \<open>\<^verbatim>\<open>a || b\<close> and \<^verbatim>\<open>a ?? b\<close> on values (both operands here are free of effects).\<close>

definition js_or :: "json \<Rightarrow> json \<Rightarrow> json" where
  "js_or a b = (if truthy a then a else b)"

definition nullish :: "json \<Rightarrow> bool" where
  "nullish v = (v = JUndef \<or> v = JNull)"

definition js_coalesce :: "json \<Rightarrow> json \<Rightarrow> json" where
  "js_coalesce a b = (if nullish a then b else a)"

text \<open>
  \<^verbatim>\<open>v?.k\<close>: \<^verbatim>\<open>undefined\<close> on \<^verbatim>\<open>null\<close> and \<^verbatim>\<open>undefined\<close>, the own property on an object.
  None of the property names the program reads (\<^verbatim>\<open>shopDomain\<close>, \<^verbatim>\<open>orderId\<close>, \<^verbatim>\<open>orderName\<close>,
  \<^verbatim>\<open>customerId\<close>, \<^verbatim>\<open>email\<close>, \<^verbatim>\<open>id\<close>, \<^verbatim>\<open>name\<close>, \<^verbatim>\<open>customer\<close>, \<^verbatim>\<open>payload\<close>,
  \<^verbatim>\<open>billing_min_cycles\<close>, \<^verbatim>\<open>errors\<close>, \<^verbatim>\<open>data\<close>, \<^verbatim>\<open>orders\<close>, \<^verbatim>\<open>nodes\<close>, \<^verbatim>\<open>order\<close>,
  \<^verbatim>\<open>tagsAdd\<close>) is inherited from a prototype of a string, number, boolean, array or
  plain object, so every other value gives \<^verbatim>\<open>undefined\<close>.
\<close>

fun get_prop :: "json \<Rightarrow> string \<Rightarrow> json" where
  "get_prop (JObj kvs) k = (case map_of kvs k of None \<Rightarrow> JUndef | Some v \<Rightarrow> v)"
| "get_prop v k = JUndef"

text \<open>\<^verbatim>\<open>v.k\<close>: the same, but a \<^verbatim>\<open>TypeError\<close> on \<^verbatim>\<open>null\<close> and \<^verbatim>\<open>undefined\<close>.\<close>

definition prop_strict :: "json \<Rightarrow> string \<Rightarrow> js_error + json" where
  "prop_strict v k = (if nullish v then Inl (not_readable k) else Inr (get_prop v k))"

text \<open>
  \<^verbatim>\<open>v?.[0]\<close>: the first element of an array, the first character of a string, the
  property \<^verbatim>\<open>"0"\<close> of an object.
\<close>

fun first_elem :: "json \<Rightarrow> json" where
  "first_elem (JArr xs) = (case xs of [] \<Rightarrow> JUndef | x # _ \<Rightarrow> x)"
| "first_elem (JStr s) = (case s of [] \<Rightarrow> JUndef | c # _ \<Rightarrow> JStr [c])"
| "first_elem (JObj kvs) = get_prop (JObj kvs) ''0''"
| "first_elem v = JUndef"

subsection \<open>Conversion to a string\<close>

text \<open>Decimal digits of a natural number, most significant first.\<close>

fun show_nat :: "nat \<Rightarrow> string" where
  "show_nat n =
     (if n < 10 then [char_of (48 + n)]
      else show_nat (n div 10) @ [char_of (48 + n mod 10)])"

definition show_int :: "int \<Rightarrow> string" where
  "show_int i = (if i < 0 then CHR ''-'' # show_nat (nat (- i)) else show_nat (nat i))"

text \<open>\<^verbatim>\<open>Array.prototype.join\<close> with the separator \<^verbatim>\<open>","\<close>.\<close>

fun join_comma :: "string list \<Rightarrow> string" where
  "join_comma [] = []"
| "join_comma [s] = s"
| "join_comma (s # t # ss) = s @ '','' @ join_comma (t # ss)"

text \<open>
  \<^verbatim>\<open>String(v)\<close>, a template literal \<^verbatim>\<open>`${v}`\<close>, and the conversion that \<^verbatim>\<open>RegExp.test\<close>
  and \<^verbatim>\<open>encodeURIComponent\<close> apply to their argument. \<open>None\<close> is the \<^verbatim>\<open>TypeError\<close>
  "Cannot convert object to primitive value": an object with an own property
  \<^verbatim>\<open>toString\<close> (never callable when it came from JSON) is left with \<^verbatim>\<open>valueOf\<close>, which
  returns the object itself. An array joins the strings of its elements, \<^verbatim>\<open>null\<close> and
  \<^verbatim>\<open>undefined\<close> counting as empty.
\<close>

fun to_string :: "json \<Rightarrow> string option" where
  "to_string JUndef = Some ''undefined''"
| "to_string JNull = Some ''null''"
| "to_string (JBool b) = Some (if b then ''true'' else ''false'')"
| "to_string (JNum n) = Some (show_int n)"
| "to_string (JStr s) = Some s"
| "to_string (JArr xs) =
     map_option join_comma
       (those (map (\<lambda>x. if x = JNull \<or> x = JUndef then Some [] else to_string x) xs))"
| "to_string (JObj kvs) =
     (case map_of kvs ''toString'' of None \<Rightarrow> Some ''[object Object]'' | Some f \<Rightarrow> None)"

declare show_nat.simps [simp del]

text \<open>
  \<^verbatim>\<open>String(a)\<close> for \<^verbatim>\<open>a\<close> a string or \<^verbatim>\<open>undefined\<close> (a request header, an environment
  variable): \<^verbatim>\<open>String(undefined)\<close> is the nine characters \<^verbatim>\<open>undefined\<close>.
\<close>

definition String_of :: "string option \<Rightarrow> string" where
  "String_of a = (case a of None \<Rightarrow> ''undefined'' | Some s \<Rightarrow> s)"

text \<open>Truthiness of a string or \<^verbatim>\<open>undefined\<close>.\<close>

definition present :: "string option \<Rightarrow> bool" where
  "present a = (case a of None \<Rightarrow> False | Some s \<Rightarrow> s \<noteq> [])"

section \<open>Configuration and helpers (lines 5-28)\<close>

text \<open>
  What lies outside the program: \<^verbatim>\<open>process.env\<close>, the built-in \<^verbatim>\<open>JSON.stringify\<close>,
  the stack trace the engine attaches to an exception, and the two remote services.
  \<open>fetch_result\<close> answers an outbound request given the requests made before it;
  \<open>Inl\<close> is a rejected \<^verbatim>\<open>fetch\<close> (a failure while the body is read counts as one).
\<close>

record fetch_response =
  resp_status :: nat
  resp_text :: string
  resp_json :: "json option"

text \<open>
  \<open>resp_text\<close> is \<^verbatim>\<open>await resp.text()\<close>; \<open>resp_json\<close> is what \<^verbatim>\<open>JSON.parse\<close> makes of that
  text, \<open>None\<close> when it throws a \<^verbatim>\<open>SyntaxError\<close>. \<^verbatim>\<open>resp.ok\<close> is a status from 200 to
  299.
\<close>

definition resp_ok :: "fetch_response \<Rightarrow> bool" where
  "resp_ok r = (200 \<le> resp_status r \<and> resp_status r \<le> 299)"

text \<open>The three GraphQL documents the program sends, with their variables.\<close>

datatype graphql =
    OrdersByName string
  | OrderById json
  | TagsAdd json "string list"

text \<open>
  An outbound request: the Seal search (query term, token), the Seal subscription by
  id (id, token), a Shopify Admin GraphQL request (host, API version, token, document).
\<close>

datatype call =
    SealSearch string string
  | SealGet string string
  | ShopifyGraphQL string string string graphql

record env =
  process_env :: "string \<Rightarrow> string option"
  JSON_stringify :: "json \<Rightarrow> string"
  stack_of :: "js_error \<Rightarrow> string"
  fetch_result :: "call list \<Rightarrow> call \<Rightarrow> js_error + fetch_response"

record region =
  code :: string
  shop :: "string option"
  sealToken :: "string option"
  flowSecret :: "string option"
  shopifyToken :: "string option"

definition SHOPIFY_ADMIN_API_VERSION :: "env \<Rightarrow> string" where
  "SHOPIFY_ADMIN_API_VERSION e =
     (case process_env e ''SHOPIFY_ADMIN_API_VERSION'' of None \<Rightarrow> ''2025-07'' | Some v \<Rightarrow> v)"

definition regions :: "env \<Rightarrow> region list" where
  "regions e = filter (\<lambda>r. present (shop r))
     [ \<lparr> code = ''UK'', shop = process_env e ''SHOP_DOMAIN_UK'',
         sealToken = process_env e ''SEAL_SUBS_TOKEN_UK'',
         flowSecret = process_env e ''SEAL_SUBS_SECRET_UK'',
         shopifyToken = process_env e ''SHOPIFY_ACCESS_TOKEN_UK'' \<rparr>,
       \<lparr> code = ''EU'', shop = process_env e ''SHOP_DOMAIN_EU'',
         sealToken = process_env e ''SEAL_SUBS_TOKEN_EU'',
         flowSecret = process_env e ''SEAL_SUBS_SECRET_EU'',
         shopifyToken = process_env e ''SHOPIFY_ACCESS_TOKEN_EU'' \<rparr>,
       \<lparr> code = ''US'', shop = process_env e ''SHOP_DOMAIN_US'',
         sealToken = process_env e ''SEAL_SUBS_TOKEN_US'',
         flowSecret = process_env e ''SEAL_SUBS_SECRET_US'',
         shopifyToken = process_env e ''SHOPIFY_ACCESS_TOKEN_US'' \<rparr> ]"

text \<open>
  \<^verbatim>\<open>byShop.get(v)\<close>: the map is built from the regions in order, a later entry
  replacing an earlier one with the same key; only a string can equal a key.
\<close>

definition byShop_get :: "env \<Rightarrow> json \<Rightarrow> region option" where
  "byShop_get e v =
     (case v of JStr s \<Rightarrow> find (\<lambda>r. shop r = Some s) (rev (regions e)) | _ \<Rightarrow> None)"

text \<open>The character class \<^verbatim>\<open>[a-z0-9-]\<close>.\<close>

definition label_char :: "char \<Rightarrow> bool" where
  "label_char c =
     ((97 \<le> (of_char c :: nat) \<and> (of_char c :: nat) \<le> 122)
      \<or> (48 \<le> (of_char c :: nat) \<and> (of_char c :: nat) \<le> 57)
      \<or> c = CHR ''-'')"

text \<open>
  \<^verbatim>\<open>/^[a-z0-9-]+\.myshopify\.com$/\<close> on a string: the last fourteen characters are
  \<^verbatim>\<open>.myshopify.com\<close> and what precedes them is a non-empty run of the class.
\<close>

definition matches_shop :: "string \<Rightarrow> bool" where
  "matches_shop s =
     (14 < length s
      \<and> drop (length s - 14) s = ''.myshopify.com''
      \<and> list_all label_char (take (length s - 14) s))"

text \<open>\<^verbatim>\<open>isValidShop(s)\<close>: \<^verbatim>\<open>test\<close> first converts its argument to a string.\<close>

definition isValidShop :: "json \<Rightarrow> js_error + bool" where
  "isValidShop s =
     (case to_string s of None \<Rightarrow> Inl not_primitive | Some str \<Rightarrow> Inr (matches_shop str))"

text \<open>
  \<^verbatim>\<open>crypto.timingSafeEqual\<close> throws on buffers of different lengths and otherwise
  tells whether they hold the same bytes.
\<close>

definition timingSafeEqual :: "string \<Rightarrow> string \<Rightarrow> js_error + bool" where
  "timingSafeEqual A B =
     (if length A \<noteq> length B
      then Inl (JsError ''RangeError'' ''Input buffers must have the same byte length'')
      else Inr (A = B))"

text \<open>
  \<^verbatim>\<open>tscEquals(a, b)\<close>. \<^verbatim>\<open>String(a) || ''\<close> converts first and falls back second, so the
  fallback is taken for the empty string only.
\<close>

definition tscEquals :: "string option \<Rightarrow> string option \<Rightarrow> bool" where
  "tscEquals a b =
     (let A = (if String_of a \<noteq> [] then String_of a else []);
          B = (if String_of b \<noteq> [] then String_of b else [])
      in length A = length B \<and> timingSafeEqual A B = Inr True)"

section \<open>Asynchronous code as state passing\<close>

text \<open>
  An \<^verbatim>\<open>async\<close> function is a function of the list of outbound requests made so far,
  giving its outcome (\<open>Inl\<close>: it throws, that is, its promise rejects) and the list with
  the requests it made appended. \<open>bind_io\<close> is \<^verbatim>\<open>await\<close> followed by the rest of the
  body: an exception skips the rest.
\<close>

type_synonym 'a io = "call list \<Rightarrow> (js_error + 'a) \<times> call list"

definition return_io :: "'a \<Rightarrow> 'a io" where
  "return_io x = (\<lambda>log. (Inr x, log))"

definition throw_io :: "js_error \<Rightarrow> 'a io" where
  "throw_io err = (\<lambda>log. (Inl err, log))"

definition bind_io :: "'a io \<Rightarrow> ('a \<Rightarrow> 'b io) \<Rightarrow> 'b io" where
  "bind_io m f = (\<lambda>log. case m log of
                      (Inl err, log') \<Rightarrow> (Inl err, log')
                    | (Inr x, log') \<Rightarrow> f x log')"

text \<open>\<^verbatim>\<open>fetch\<close>: the request is recorded, the environment answers.\<close>

definition fetch :: "env \<Rightarrow> call \<Rightarrow> fetch_response io" where
  "fetch e c = (\<lambda>log. (fetch_result e log c, log @ [c]))"

section \<open>Seal helpers (lines 138-157)\<close>

text \<open>
  \<^verbatim>\<open>safeJson(text)\<close>, applied to what \<^verbatim>\<open>JSON.parse(text)\<close> gives: a text that does not
  parse becomes the empty object.
\<close>

definition safeJson :: "json option \<Rightarrow> json" where
  "safeJson parsed = (case parsed of None \<Rightarrow> JObj [] | Some j \<Rightarrow> j)"

definition is_array :: "json \<Rightarrow> bool" where
  "is_array v = (case v of JArr xs \<Rightarrow> True | _ \<Rightarrow> False)"

text \<open>
  \<^verbatim>\<open>sealSearchByEmail\<close>. The request is identified by the query term before
  percent-encoding; \<^verbatim>\<open>slice(0,300)\<close> keeps the first 300 characters.
\<close>

definition sealSearchByEmail :: "env \<Rightarrow> json \<Rightarrow> string \<Rightarrow> json io" where
  "sealSearchByEmail e email tok =
     (case to_string email of
        None \<Rightarrow> throw_io not_primitive
      | Some q \<Rightarrow>
          bind_io (fetch e (SealSearch q tok)) (\<lambda>resp.
            if \<not> resp_ok resp
            then throw_io (JsError ''Error''
                   (''Seal search failed '' @ show_nat (resp_status resp) @ '': ''
                      @ take 300 (resp_text resp)))
            else let data = safeJson (resp_json resp)
                 in return_io (if is_array data then data
                               else js_coalesce (get_prop data ''payload'') (JArr []))))"

definition sealGetById :: "env \<Rightarrow> json \<Rightarrow> string \<Rightarrow> json io" where
  "sealGetById e ident tok =
     (case to_string ident of
        None \<Rightarrow> throw_io not_primitive
      | Some i \<Rightarrow>
          bind_io (fetch e (SealGet i tok)) (\<lambda>resp.
            if \<not> resp_ok resp
            then throw_io (JsError ''Error''
                   (''Seal get failed ('' @ i @ '') '' @ show_nat (resp_status resp) @ '': ''
                      @ take 300 (resp_text resp)))
            else let json = safeJson (resp_json resp)
                 in return_io (js_or (get_prop json ''payload'') json)))"

section \<open>Shopify helpers (lines 160-231)\<close>

text \<open>
  \<^verbatim>\<open>shopifyGraphQL\<close>. \<^verbatim>\<open>resp.json()\<close> throws on a body that does not parse;
  \<^verbatim>\<open>json.errors\<close> throws when the body is \<^verbatim>\<open>null\<close>.
\<close>

definition shopifyGraphQL :: "env \<Rightarrow> json \<Rightarrow> string \<Rightarrow> graphql \<Rightarrow> json io" where
  "shopifyGraphQL e shp tok doc =
     (case to_string shp of
        None \<Rightarrow> throw_io not_primitive
      | Some host \<Rightarrow>
          bind_io (fetch e (ShopifyGraphQL host (SHOPIFY_ADMIN_API_VERSION e) tok doc)) (\<lambda>resp.
            case resp_json resp of
              None \<Rightarrow> throw_io syntax_error
            | Some json \<Rightarrow>
                (case prop_strict json ''errors'' of
                   Inl err \<Rightarrow> throw_io err
                 | Inr errors \<Rightarrow>
                     if \<not> resp_ok resp \<or> truthy errors
                     then throw_io (JsError ''Error''
                            (''Shopify GraphQL failed: ''
                               @ (if truthy errors then JSON_stringify e errors
                                  else ''status '' @ show_nat (resp_status resp))))
                     else return_io (get_prop json ''data''))))"

text \<open>
  \<^verbatim>\<open>findOrderByName\<close>. \<^verbatim>\<open>orderName.startsWith\<close> is a function on a string only; the
  caller passes a truthy value, so anything else is a number, \<^verbatim>\<open>true\<close>, an array or an
  object, where calling it throws.
\<close>

definition findOrderByName :: "env \<Rightarrow> json \<Rightarrow> string \<Rightarrow> json \<Rightarrow> json io" where
  "findOrderByName e shp tok orderName =
     (case orderName of
        JStr s \<Rightarrow>
          bind_io (shopifyGraphQL e shp tok
                     (OrdersByName (''name:'' @ (if take 1 s = ''#'' then s else ''#'' @ s))))
            (\<lambda>resp. return_io
               (js_or (first_elem (get_prop (get_prop resp ''orders'') ''nodes'')) JNull))
      | _ \<Rightarrow> throw_io (if nullish orderName then not_readable ''startsWith''
                       else not_a_function ''orderName.startsWith''))"

definition getOrderById :: "env \<Rightarrow> json \<Rightarrow> string \<Rightarrow> json \<Rightarrow> json io" where
  "getOrderById e shp tok orderId =
     bind_io (shopifyGraphQL e shp tok (OrderById orderId))
       (\<lambda>resp. return_io (js_or (get_prop resp ''order'') JNull))"

record order_context =
  shopDomain :: json
  orderId :: json
  orderName :: json
  customerId :: json
  email :: json

text \<open>\<^verbatim>\<open>ensureOrderContext\<close>: the three \<^verbatim>\<open>if\<close>s of the source, in order.\<close>

definition ensureOrderContext :: "env \<Rightarrow> order_context \<Rightarrow> string \<Rightarrow> order_context io" where
  "ensureOrderContext e c tok =
     (if truthy (orderId c) \<and> truthy (customerId c) \<and> truthy (email c) \<and> truthy (orderName c)
      then return_io c
      else
        bind_io
          (if \<not> truthy (orderId c) \<and> truthy (orderName c)
           then bind_io (findOrderByName e (shopDomain c) tok (orderName c)) (\<lambda>found.
                  return_io (c \<lparr>
                    orderId := js_or (get_prop found ''id'') (orderId c),
                    customerId := js_or (get_prop (get_prop found ''customer'') ''id'') (customerId c),
                    email := js_or (get_prop found ''email'') (email c),
                    orderName := js_or (get_prop found ''name'') (orderName c) \<rparr>))
           else return_io c)
          (\<lambda>c1.
            if (\<not> truthy (email c1) \<or> \<not> truthy (customerId c1) \<or> \<not> truthy (orderName c1))
               \<and> truthy (orderId c1)
            then bind_io (getOrderById e (shopDomain c1) tok (orderId c1)) (\<lambda>got.
                   return_io (c1 \<lparr>
                     orderName := js_or (get_prop got ''name'') (orderName c1),
                     email := js_or (js_or (js_or (email c1) (get_prop got ''email''))
                                       (get_prop (get_prop got ''customer'') ''email'')) JNull,
                     customerId := js_or (js_or (customerId c1)
                                       (get_prop (get_prop got ''customer'') ''id'')) JNull \<rparr>))
            else return_io c1))"

text \<open>
  \<^verbatim>\<open>Array.from(new Set(tags))\<close>: the elements in the order of their first occurrence.
\<close>

definition set_add :: "string list \<Rightarrow> string \<Rightarrow> string list" where
  "set_add seen t = (if t \<in> set seen then seen else seen @ [t])"

definition array_from_set :: "string list \<Rightarrow> string list" where
  "array_from_set tags = foldl set_add [] tags"

definition skipped :: json where
  "skipped = JObj [(''skipped'', JStr ''no tags to add'')]"

text \<open>\<^verbatim>\<open>tagsAdd\<close>; \<open>None\<close> is a tag list that is \<^verbatim>\<open>null\<close> or \<^verbatim>\<open>undefined\<close>.\<close>

definition tagsAdd :: "env \<Rightarrow> json \<Rightarrow> string \<Rightarrow> json \<Rightarrow> string list option \<Rightarrow> json io" where
  "tagsAdd e shp tok gid tags =
     (case tags of
        None \<Rightarrow> return_io skipped
      | Some ts \<Rightarrow>
          if length ts = 0 then return_io skipped
          else bind_io (shopifyGraphQL e shp tok (TagsAdd gid (array_from_set ts)))
                 (\<lambda>r. return_io (js_or (get_prop r ''tagsAdd'') r)))"

section \<open>The endpoint \<^verbatim>\<open>POST /flow/order-created\<close> (lines 56-135)\<close>

record request =
  req_body :: json
  req_header :: "string option"

text \<open>
  \<open>req_body\<close> is \<^verbatim>\<open>req.body\<close>, \<open>req_header\<close> is \<^verbatim>\<open>req.header('X-Flow-Secret')\<close>.
  A reply is the status and the object given to \<^verbatim>\<open>res.json\<close>.
\<close>

record reply =
  reply_status :: nat
  reply_json :: json

definition error_reply :: "nat \<Rightarrow> string \<Rightarrow> reply" where
  "error_reply st msg = \<lparr> reply_status = st, reply_json = JObj [(''error'', JStr msg)] \<rparr>"

text \<open>Lines 86-88: \<^verbatim>\<open>subs.map(s => sealGetById(s.id, region.sealToken))\<close>.
  The requests start in the order of the list; \<^verbatim>\<open>s.id\<close> on \<^verbatim>\<open>null\<close> throws out of
  \<^verbatim>\<open>map\<close>, after the requests for the elements before it have started. The result is
  the list of the outcomes of the promises.\<close>

fun map_sealGetById :: "env \<Rightarrow> string \<Rightarrow> json list \<Rightarrow> (js_error + json) list io" where
  "map_sealGetById e tok [] = return_io []"
| "map_sealGetById e tok (s # ss) =
     (\<lambda>log. case prop_strict s ''id'' of
               Inl err \<Rightarrow> (Inl err, log)
             | Inr i \<Rightarrow>
                 (case sealGetById e i tok log of
                    (r, log1) \<Rightarrow>
                      (case map_sealGetById e tok ss log1 of
                         (Inl err, log2) \<Rightarrow> (Inl err, log2)
                       | (Inr rs, log2) \<Rightarrow> (Inr (r # rs), log2))))"

text \<open>
  \<^verbatim>\<open>Promise.all\<close>: all the values, or a rejection if one promise rejects (of several
  rejections the model takes the first in the list, the engine the first in time).
\<close>

fun Promise_all :: "(js_error + 'a) list \<Rightarrow> js_error + 'a list" where
  "Promise_all [] = Inr []"
| "Promise_all (Inl err # ps) = Inl err"
| "Promise_all (Inr x # ps) =
     (case Promise_all ps of Inl err \<Rightarrow> Inl err | Inr xs \<Rightarrow> Inr (x # xs))"

definition fetch_details :: "env \<Rightarrow> json \<Rightarrow> string \<Rightarrow> json list io" where
  "fetch_details e subs tok =
     (case subs of
        JArr ss \<Rightarrow>
          bind_io (map_sealGetById e tok ss) (\<lambda>promises log. (Promise_all promises, log))
      | _ \<Rightarrow> throw_io (if nullish subs then not_readable ''map''
                       else not_a_function ''subs.map''))"

text \<open>Lines 91-94: the minimal fields of each detail record.\<close>

record summary =
  sub_id :: json
  billing_min_cycles :: json

fun minimal_of :: "json list \<Rightarrow> js_error + summary list" where
  "minimal_of [] = Inr []"
| "minimal_of (d # ds) =
     (case prop_strict d ''id'' of
        Inl err \<Rightarrow> Inl err
      | Inr i \<Rightarrow>
          (case prop_strict d ''billing_min_cycles'' of
             Inl err \<Rightarrow> Inl err
           | Inr b \<Rightarrow>
               (case minimal_of ds of
                  Inl err \<Rightarrow> Inl err
                | Inr ms \<Rightarrow>
                    Inr (\<lparr> sub_id = i, billing_min_cycles = js_coalesce b JNull \<rparr> # ms))))"

text \<open>Lines 96-99: the tags. A template literal converts its value to a string.\<close>

definition id_tag :: "summary \<Rightarrow> string option" where
  "id_tag m = map_option (\<lambda>s. ''seal_sub_id_'' @ s) (to_string (sub_id m))"

definition cycles_tag :: "summary \<Rightarrow> string option" where
  "cycles_tag m = map_option (\<lambda>s. ''seal_min_cycles_'' @ s) (to_string (billing_min_cycles m))"

definition deriveTags :: "summary list \<Rightarrow> js_error + string list" where
  "deriveTags minimal =
     (case those (map id_tag minimal) of
        None \<Rightarrow> Inl not_primitive
      | Some ids \<Rightarrow>
          (case those (map cycles_tag
                        (filter (\<lambda>m. \<not> nullish (billing_min_cycles m)) minimal)) of
             None \<Rightarrow> Inl not_primitive
           | Some cycles \<Rightarrow> Inr (ids @ cycles)))"

text \<open>Lines 102-114: the two writes, each in its own \<^verbatim>\<open>try\<close>.\<close>

definition caught :: "string \<Rightarrow> js_error + json \<Rightarrow> json" where
  "caught fallback outcome =
     (case outcome of
        Inl err \<Rightarrow> JObj [(''error'', JStr (if message err \<noteq> [] then message err else fallback))]
      | Inr v \<Rightarrow> v)"

definition tag_writes ::
  "env \<Rightarrow> json \<Rightarrow> string \<Rightarrow> order_context \<Rightarrow> string list \<Rightarrow> call list \<Rightarrow> json \<times> call list" where
  "tag_writes e shp tok ensured tags log =
     (case tagsAdd e shp tok (orderId ensured) (Some tags) log of
        (order_outcome, log1) \<Rightarrow>
          if truthy (customerId ensured)
          then (case tagsAdd e shp tok (customerId ensured) (Some tags) log1 of
                  (customer_outcome, log2) \<Rightarrow>
                    (JObj [(''order'', caught ''order tagging failed'' order_outcome),
                           (''customer'', caught ''customer tagging failed'' customer_outcome)],
                     log2))
          else (JObj [(''order'', caught ''order tagging failed'' order_outcome)], log1))"

text \<open>Lines 116-125.\<close>

definition summary_json :: "summary \<Rightarrow> json" where
  "summary_json m = JObj [(''id'', sub_id m), (''billing_min_cycles'', billing_min_cycles m)]"

definition success_reply :: "json \<Rightarrow> order_context \<Rightarrow> summary list \<Rightarrow> json \<Rightarrow> reply" where
  "success_reply shp ensured minimal tagResults =
     \<lparr> reply_status = 200,
       reply_json = JObj
         [(''ok'', JBool True),
          (''shopDomain'', shp),
          (''orderId'', orderId ensured),
          (''orderName'', orderName ensured),
          (''customerId'', js_or (customerId ensured) JNull),
          (''email'', email ensured),
          (''subscriptions'', JArr (map summary_json minimal)),
          (''tagResults'', tagResults)] \<rparr>"

text \<open>Lines 82-125: from the subscription search to the reply.\<close>

definition lookup_and_tag :: "env \<Rightarrow> json \<Rightarrow> region \<Rightarrow> order_context \<Rightarrow> reply io" where
  "lookup_and_tag e shp reg ensured =
     bind_io (sealSearchByEmail e (email ensured) (String_of (sealToken reg))) (\<lambda>subs.
       bind_io (fetch_details e subs (String_of (sealToken reg))) (\<lambda>details.
         case minimal_of details of
           Inl err \<Rightarrow> throw_io err
         | Inr minimal \<Rightarrow>
             (case deriveTags minimal of
                Inl err \<Rightarrow> throw_io err
              | Inr tags \<Rightarrow>
                  (\<lambda>log. case tag_writes e shp (String_of (shopifyToken reg)) ensured tags log of
                           (tagResults, log') \<Rightarrow>
                             (Inr (success_reply shp ensured minimal tagResults), log')))))"

text \<open>Lines 74-125: context resolution, the two required fields, and the rest.\<close>

definition resolve_and_tag :: "env \<Rightarrow> order_context \<Rightarrow> region \<Rightarrow> reply io" where
  "resolve_and_tag e c reg =
     bind_io (ensureOrderContext e c (String_of (shopifyToken reg))) (\<lambda>ensured.
       if \<not> truthy (orderId ensured)
       then return_io (error_reply 400 ''orderId (gid) required or resolvable'')
       else if \<not> truthy (email ensured)
       then return_io (error_reply 400
              ''email required (send via Flow or resolvable from order)'')
       else lookup_and_tag e (shopDomain c) reg ensured)"

text \<open>Lines 58-125: the body of the \<^verbatim>\<open>try\<close>.\<close>

definition order_created_try :: "env \<Rightarrow> request \<Rightarrow> reply io" where
  "order_created_try e req =
     (let body = js_or (req_body req) (JObj []);
          c = \<lparr> shopDomain = get_prop body ''shopDomain'',
                orderId = get_prop body ''orderId'',
                orderName = get_prop body ''orderName'',
                customerId = get_prop body ''customerId'',
                email = get_prop body ''email'' \<rparr>
      in if \<not> truthy (shopDomain c)
         then return_io (error_reply 400 ''Missing or invalid shopDomain'')
         else
           case isValidShop (shopDomain c) of
             Inl err \<Rightarrow> throw_io err
           | Inr valid \<Rightarrow>
               if \<not> valid
               then return_io (error_reply 400 ''Missing or invalid shopDomain'')
               else
                 (case byShop_get e (shopDomain c) of
                    None \<Rightarrow>
                      (case to_string (shopDomain c) of
                         None \<Rightarrow> throw_io not_primitive
                       | Some s \<Rightarrow> return_io (error_reply 400 (''Shop not recognized: '' @ s)))
                  | Some reg \<Rightarrow>
                      if present (flowSecret reg) \<and> \<not> tscEquals (req_header req) (flowSecret reg)
                      then return_io (error_reply 401 ''Bad X-Flow-Secret'')
                      else if \<not> present (sealToken reg)
                      then return_io (error_reply 500 ''Seal token not configured for shop'')
                      else if \<not> present (shopifyToken reg)
                      then return_io (error_reply 500 ''Shopify token not configured for shop'')
                      else resolve_and_tag e c reg))"

text \<open>Lines 126-134: the \<^verbatim>\<open>catch\<close>. \<^verbatim>\<open>String(err)\<close> of an exception without a message is
  its name.\<close>

fun split_lines :: "string \<Rightarrow> string list" where
  "split_lines [] = [[]]"
| "split_lines (c # cs) =
     (if c = CHR 0x0A then [] # split_lines cs
      else (case split_lines cs of [] \<Rightarrow> [[c]] | l # ls \<Rightarrow> (c # l) # ls))"

definition server_error :: "env \<Rightarrow> js_error \<Rightarrow> reply" where
  "server_error e err =
     \<lparr> reply_status = 500,
       reply_json = JObj
         ((''error'', JStr ''Server error'')
          # (if process_env e ''DEBUG_ERRORS'' = Some ''true''
             then [(''details'', JStr (if message err \<noteq> [] then message err else err_name err)),
                   (''stack'', JArr (map JStr (take 3 (split_lines (stack_of e err)))))]
             else [])) \<rparr>"

definition order_created :: "env \<Rightarrow> request \<Rightarrow> call list \<Rightarrow> reply \<times> call list" where
  "order_created e req log =
     (case order_created_try e req log of
        (Inl err, log') \<Rightarrow> (server_error e err, log')
      | (Inr r, log') \<Rightarrow> (r, log'))"

section \<open>Vocabulary for the statements\<close>

text \<open>
  What one subscription contributes to the tags, and when its tags cannot be printed.
\<close>

definition emits :: "summary \<Rightarrow> string \<Rightarrow> bool" where
  "emits m t \<longleftrightarrow>
     id_tag m = Some t \<or> (cycles_tag m = Some t \<and> \<not> nullish (billing_min_cycles m))"

definition unprintable :: "summary \<Rightarrow> bool" where
  "unprintable m \<longleftrightarrow>
     id_tag m = None \<or> (cycles_tag m = None \<and> \<not> nullish (billing_min_cycles m))"

text \<open>
  The answer the \<open>k\<close>-th request of a log received, and an event (a property of a
  request and its answer) that occurs somewhere in a log.
\<close>

definition answered :: "env \<Rightarrow> call list \<Rightarrow> nat \<Rightarrow> js_error + fetch_response" where
  "answered e log k = fetch_result e (take k log) (log ! k)"

definition occurs :: "env \<Rightarrow> (call \<Rightarrow> js_error + fetch_response \<Rightarrow> bool) \<Rightarrow> call list \<Rightarrow> bool" where
  "occurs e ev log = (\<exists>k<length log. ev (log ! k) (answered e log k))"

text \<open>The kinds of requests.\<close>

definition is_search :: "call \<Rightarrow> bool" where
  "is_search c = (case c of SealSearch q t \<Rightarrow> True | _ \<Rightarrow> False)"

definition is_detail :: "call \<Rightarrow> bool" where
  "is_detail c = (case c of SealGet i t \<Rightarrow> True | _ \<Rightarrow> False)"

definition is_lookup :: "call \<Rightarrow> bool" where
  "is_lookup c =
     (case c of
        ShopifyGraphQL h v t doc \<Rightarrow>
          (case doc of OrdersByName q \<Rightarrow> True | OrderById g \<Rightarrow> True | TagsAdd g ts \<Rightarrow> False)
      | _ \<Rightarrow> False)"

definition is_tag_write :: "call \<Rightarrow> bool" where
  "is_tag_write c =
     (case c of
        ShopifyGraphQL h v t doc \<Rightarrow>
          (case doc of TagsAdd g ts \<Rightarrow> True | _ \<Rightarrow> False)
      | _ \<Rightarrow> False)"

text \<open>The tags a request sends (none unless it is a tag write).\<close>

definition tags_sent :: "call \<Rightarrow> string list" where
  "tags_sent c =
     (case c of
        ShopifyGraphQL h v t doc \<Rightarrow>
          (case doc of TagsAdd g ts \<Rightarrow> ts | _ \<Rightarrow> [])
      | _ \<Rightarrow> [])"

text \<open>
  The events: a detail fetch fails (\<^verbatim>\<open>fetch\<close> rejects, or the status is not 2xx); the
  body of an answer does not parse.
\<close>

definition fetch_failed :: "js_error + fetch_response \<Rightarrow> bool" where
  "fetch_failed a = (case a of Inl err \<Rightarrow> True | Inr resp \<Rightarrow> \<not> resp_ok resp)"

definition unparseable :: "js_error + fetch_response \<Rightarrow> bool" where
  "unparseable a = (case a of Inl err \<Rightarrow> False | Inr resp \<Rightarrow> resp_json resp = None)"

definition detail_failed :: "call \<Rightarrow> js_error + fetch_response \<Rightarrow> bool" where
  "detail_failed c a = (is_detail c \<and> fetch_failed a)"

definition lookup_unparseable :: "call \<Rightarrow> js_error + fetch_response \<Rightarrow> bool" where
  "lookup_unparseable c a = (is_lookup c \<and> unparseable a)"

definition search_unparseable :: "call \<Rightarrow> js_error + fetch_response \<Rightarrow> bool" where
  "search_unparseable c a = (is_search c \<and> unparseable a \<and> \<not> fetch_failed a)"

definition tag_written :: "call \<Rightarrow> js_error + fetch_response \<Rightarrow> bool" where
  "tag_written c a = is_tag_write c"

text \<open>A log that continues another with requests of one kind.\<close>

definition extends_by :: "(call \<Rightarrow> bool) \<Rightarrow> call list \<Rightarrow> call list \<Rightarrow> bool" where
  "extends_by K log log' = (\<exists>cs. log' = log @ cs \<and> list_all K cs)"

text \<open>A tag write whose tags are pairwise different.\<close>

definition clean_tag_write :: "call \<Rightarrow> bool" where
  "clean_tag_write c = (is_tag_write c \<and> distinct (tags_sent c))"

section \<open>Concrete environments and requests\<close>

text \<open>
  One configured region (UK) with the secret given, and a remote side that answers every
  request well: two subscriptions (77 and 78) with three minimum cycles each, and one
  order \<^verbatim>\<open>#1001\<close>.
\<close>

definition uk_env :: "string \<Rightarrow> string \<Rightarrow> string option" where
  "uk_env secret k =
     (if k = ''SHOP_DOMAIN_UK'' then Some ''shop-uk.myshopify.com''
      else if k = ''SEAL_SUBS_TOKEN_UK'' then Some ''seal-token''
      else if k = ''SEAL_SUBS_SECRET_UK'' then Some secret
      else if k = ''SHOPIFY_ACCESS_TOKEN_UK'' then Some ''admin-token''
      else None)"

definition answer :: "json \<Rightarrow> js_error + fetch_response" where
  "answer j = Inr \<lparr> resp_status = 200, resp_text = ''(json)'', resp_json = Some j \<rparr>"

definition order_node :: json where
  "order_node =
     JObj [(''id'', JStr ''gid://shopify/Order/1''), (''name'', JStr ''#1001''),
           (''email'', JStr ''new@b.com''),
           (''customer'', JObj [(''id'', JStr ''gid://shopify/Customer/2'')])]"

definition remote_ok :: "call list \<Rightarrow> call \<Rightarrow> js_error + fetch_response" where
  "remote_ok log c =
     (case c of
        SealSearch q t \<Rightarrow>
          answer (JObj [(''payload'', JArr [JObj [(''id'', JNum 77)], JObj [(''id'', JNum 78)]])])
      | SealGet i t \<Rightarrow>
          answer (JObj [(''success'', JBool True),
                        (''payload'', JObj [(''id'', JNum (if i = ''77'' then 77 else 78)),
                                             (''billing_min_cycles'', JNum 3)])])
      | ShopifyGraphQL h v t doc \<Rightarrow>
          (case doc of
             OrdersByName q \<Rightarrow>
               answer (JObj [(''data'', JObj [(''orders'', JObj [(''nodes'', JArr [order_node])])])])
           | OrderById g \<Rightarrow> answer (JObj [(''data'', JObj [(''order'', order_node)])])
           | TagsAdd g ts \<Rightarrow>
               answer (JObj [(''data'', JObj [(''tagsAdd'', JObj [(''userErrors'', JArr [])])])])))"

definition example_env ::
  "string \<Rightarrow> (call list \<Rightarrow> call \<Rightarrow> js_error + fetch_response) \<Rightarrow> env" where
  "example_env secret remote =
     \<lparr> process_env = uk_env secret, JSON_stringify = (\<lambda>j. ''(errors)''),
       stack_of = (\<lambda>err. []), fetch_result = remote \<rparr>"

text \<open>A context that lacks the order id, and a request that lacks nothing.\<close>

definition partial_context :: order_context where
  "partial_context =
     \<lparr> shopDomain = JStr ''shop-uk.myshopify.com'', orderId = JUndef, orderName = JStr ''1001'',
       customerId = JStr ''gid://shopify/Customer/1'', email = JStr ''old@b.com'' \<rparr>"

definition full_request :: request where
  "full_request =
     \<lparr> req_body = JObj [(''shopDomain'', JStr ''shop-uk.myshopify.com''),
                         (''orderId'', JStr ''gid://shopify/Order/1''),
                         (''orderName'', JStr ''#1001''),
                         (''customerId'', JStr ''gid://shopify/Customer/9''),
                         (''email'', JStr ''a@b.com'')],
       req_header = Some ''S'' \<rparr>"

definition request_without_header :: request where
  "request_without_header = full_request \<lparr> req_header := None \<rparr>"

text \<open>A request that names the order only, so that the order is looked up by name.\<close>

definition request_by_name :: request where
  "request_by_name =
     \<lparr> req_body = JObj [(''shopDomain'', JStr ''shop-uk.myshopify.com''),
                         (''orderName'', JStr ''1001'')],
       req_header = Some ''S'' \<rparr>"

text \<open>A request whose shop domain is an object with a property \<^verbatim>\<open>toString\<close>.\<close>

definition request_odd_shop :: request where
  "request_odd_shop =
     \<lparr> req_body = JObj [(''shopDomain'', JObj [(''toString'', JNum 1)])],
       req_header = Some ''S'' \<rparr>"

text \<open>
  Remote sides that misbehave in one place: a web page with status 200 for the
  subscription search; a web page with status 502 for the order lookup; status 500 for
  the details of subscription 78; a rejected \<^verbatim>\<open>fetch\<close> for the tag write on the customer.
\<close>

definition html_page :: "nat \<Rightarrow> js_error + fetch_response" where
  "html_page st = Inr \<lparr> resp_status = st, resp_text = ''<html>'', resp_json = None \<rparr>"

definition remote_bad_search :: "call list \<Rightarrow> call \<Rightarrow> js_error + fetch_response" where
  "remote_bad_search log c =
     (case c of SealSearch q t \<Rightarrow> html_page 200 | _ \<Rightarrow> remote_ok log c)"

definition remote_bad_lookup :: "call list \<Rightarrow> call \<Rightarrow> js_error + fetch_response" where
  "remote_bad_lookup log c = (if is_lookup c then html_page 502 else remote_ok log c)"

definition remote_detail_down :: "call list \<Rightarrow> call \<Rightarrow> js_error + fetch_response" where
  "remote_detail_down log c =
     (case c of
        SealGet i t \<Rightarrow>
          (if i = ''78''
           then Inr \<lparr> resp_status = 500, resp_text = ''down'', resp_json = None \<rparr>
           else remote_ok log c)
      | _ \<Rightarrow> remote_ok log c)"

definition remote_customer_down :: "call list \<Rightarrow> call \<Rightarrow> js_error + fetch_response" where
  "remote_customer_down log c =
     (if is_tag_write c \<and> length log = 4
      then Inl (JsError ''TypeError'' ''fetch failed'')
      else remote_ok log c)"

text \<open>Subscription summaries; the second is without minimum cycles.\<close>

definition summary_77 :: summary where
  "summary_77 = \<lparr> sub_id = JNum 77, billing_min_cycles = JNum 3 \<rparr>"

definition summary_78 :: summary where
  "summary_78 = \<lparr> sub_id = JNum 78, billing_min_cycles = JNull \<rparr>"

definition summary_79 :: summary where
  "summary_79 = \<lparr> sub_id = JNum 79, billing_min_cycles = JNum 3 \<rparr>"

section \<open>Basic facts\<close>

lemma io_simps [simp]:
  "return_io x log = (Inr x, log)"
  "throw_io err log = (Inl err, log)"
  "fetch e c log = (fetch_result e log c, log @ [c])"
  by (simp_all add: return_io_def throw_io_def fetch_def)

lemma bind_io_Inr:
  "bind_io m f log = (Inr y, log'') \<longleftrightarrow>
     (\<exists>x log'. m log = (Inr x, log') \<and> f x log' = (Inr y, log''))"
  by (auto simp: bind_io_def split: prod.splits sum.splits)

lemma truthy_js_or [simp]: "truthy (js_or a b) = (truthy a \<or> truthy b)"
  by (simp add: js_or_def)

lemma js_or_truthy: "truthy a \<Longrightarrow> js_or a b = a"
  by (simp add: js_or_def)

lemma js_or_falsy: "\<not> truthy a \<Longrightarrow> js_or a b = b"
  by (simp add: js_or_def)

lemma server_error_reply:
  "reply_status (server_error e err) = 500
   \<and> get_prop (reply_json (server_error e err)) ''error'' = JStr ''Server error''
   \<and> get_prop (reply_json (server_error e err)) ''subscriptions'' = JUndef"
  by (simp add: server_error_def)

lemma order_created_log:
  "order_created e req log = (r, log') \<Longrightarrow> \<exists>res. order_created_try e req log = (res, log')"
  by (auto simp: order_created_def split: prod.splits sum.splits)

section \<open>The shop domain\<close>

text \<open>
  The matcher is the regular expression: a string matches exactly when it is a
  non-empty label over \<^verbatim>\<open>[a-z0-9-]\<close> followed by \<^verbatim>\<open>.myshopify.com\<close>.
\<close>

lemma matches_shop_iff:
  "matches_shop s \<longleftrightarrow>
     (\<exists>label. label \<noteq> [] \<and> list_all label_char label \<and> s = label @ ''.myshopify.com'')"
proof
  assume m: "matches_shop s"
  let ?label = "take (length s - 14) s"
  from m have "?label \<noteq> []" by (auto simp: matches_shop_def)
  moreover from m have "list_all label_char ?label" by (simp add: matches_shop_def)
  moreover from m have "s = ?label @ ''.myshopify.com''"
    by (metis append_take_drop_id matches_shop_def)
  ultimately show "\<exists>label. label \<noteq> [] \<and> list_all label_char label \<and> s = label @ ''.myshopify.com''"
    by blast
next
  assume "\<exists>label. label \<noteq> [] \<and> list_all label_char label \<and> s = label @ ''.myshopify.com''"
  then obtain label where "label \<noteq> []" "list_all label_char label"
    and s: "s = label @ ''.myshopify.com''" by blast
  then show "matches_shop s"
    by (simp add: matches_shop_def)
qed

text \<open>
  What the endpoint does with a shop domain that converts to a string: 400 and no
  outbound request when the string does not match, and a 400 with another message, again
  with no outbound request, when it matches and the registry does not hold it.
\<close>

lemma invalid_shop_rejected:
  assumes "get_prop (js_or (req_body req) (JObj [])) ''shopDomain'' = sd"
    and "to_string sd = Some s" and "\<not> truthy sd \<or> \<not> matches_shop s"
  shows "order_created e req log = (error_reply 400 ''Missing or invalid shopDomain'', log)"
  using assms
  by (auto simp: order_created_def order_created_try_def isValidShop_def Let_def)

lemma unknown_shop_rejected:
  assumes "get_prop (js_or (req_body req) (JObj [])) ''shopDomain'' = JStr s"
    and "matches_shop s" and "byShop_get e (JStr s) = None"
  shows "order_created e req log = (error_reply 400 (''Shop not recognized: '' @ s), log)"
proof -
  from assms(2) have "s \<noteq> []" by (auto simp: matches_shop_def)
  with assms show ?thesis
    by (simp add: order_created_def order_created_try_def isValidShop_def Let_def)
qed

text \<open>
  A shop domain that does not convert to a string is truthy; the handler then replies
  with the server error. So no request whose shop domain fails to match leads to an
  outbound request.
\<close>

lemma unprintable_truthy: "to_string sd = None \<Longrightarrow> truthy sd"
  by (cases sd) simp_all

lemma unmatched_shop_no_call:
  assumes "get_prop (js_or (req_body req) (JObj [])) ''shopDomain'' = sd"
    and "\<And>s. to_string sd = Some s \<Longrightarrow> \<not> truthy sd \<or> \<not> matches_shop s"
  shows "order_created e req log =
           (if to_string sd = None then server_error e not_primitive
            else error_reply 400 ''Missing or invalid shopDomain'', log)"
proof (cases "to_string sd")
  case None
  with assms(1) unprintable_truthy [OF None] show ?thesis
    by (simp add: order_created_def order_created_try_def isValidShop_def Let_def)
next
  case (Some s)
  with assms(2) have "\<not> truthy sd \<or> \<not> matches_shop s" by simp
  with assms(1) Some show ?thesis
    by (simp add: invalid_shop_rejected)
qed

text \<open>
  Claim C8 says that every request whose shop domain does not match the pattern gets
  status 400 before any remote call. The handler makes no remote call, but the status
  is 500 when the shop domain is an object (or an array holding one) with a property
  \<^verbatim>\<open>toString\<close>: \<^verbatim>\<open>RegExp.test\<close> converts its argument to a string, the conversion
  throws a \<^verbatim>\<open>TypeError\<close>, and the \<^verbatim>\<open>catch\<close> of the handler answers "Server error".
  The theorem evaluates the handler on the body
  \<^verbatim>\<open>{"shopDomain": {"toString": 1}}\<close>, for every environment and header.
\<close>

theorem unprintable_shop_domain:
  "order_created e \<lparr> req_body = JObj [(''shopDomain'', JObj [(''toString'', JNum 1)])],
                      req_header = h \<rparr> log
     = (server_error e not_primitive, log)
   \<and> reply_status (server_error e not_primitive) = 500"
  by (simp add: order_created_def order_created_try_def isValidShop_def js_or_def
                server_error_def)

theorem unprintable_shop_domain_witness:
  "order_created (example_env ''S'' remote_ok) request_odd_shop []
     = (\<lparr> reply_status = 500, reply_json = JObj [(''error'', JStr ''Server error'')] \<rparr>, [])"
  using unprintable_shop_domain [of "example_env ''S'' remote_ok" "Some ''S''" "[]"]
  by (simp add: request_odd_shop_def server_error_def example_env_def uk_env_def)

section \<open>The shared secret\<close>

lemma tscEquals_iff: "tscEquals a b \<longleftrightarrow> String_of a = String_of b"
  by (auto simp: tscEquals_def timingSafeEqual_def Let_def)

text \<open>
  With a secret configured, a header that is present passes exactly when it equals the
  secret; a header that is missing passes exactly when the secret is the string
  \<^verbatim>\<open>undefined\<close>.
\<close>

lemma tscEquals_header: "tscEquals (Some h) (Some secret) \<longleftrightarrow> h = secret"
  by (simp add: tscEquals_iff String_of_def)

lemma tscEquals_no_header: "tscEquals None (Some secret) \<longleftrightarrow> secret = ''undefined''"
  by (auto simp: tscEquals_iff String_of_def)

lemma bad_secret_rejected:
  assumes "get_prop (js_or (req_body req) (JObj [])) ''shopDomain'' = JStr s"
    and "matches_shop s" and "byShop_get e (JStr s) = Some reg"
    and "flowSecret reg = Some secret" and "secret \<noteq> []"
    and "req_header req \<noteq> Some secret"
    and "req_header req = None \<longrightarrow> secret \<noteq> ''undefined''"
  shows "order_created e req log = (error_reply 401 ''Bad X-Flow-Secret'', log)"
proof -
  from assms(2) have "s \<noteq> []" by (auto simp: matches_shop_def)
  moreover from assms(4-7) have "\<not> tscEquals (req_header req) (flowSecret reg)"
    by (cases "req_header req") (auto simp: tscEquals_header tscEquals_no_header)
  ultimately show ?thesis using assms(1-5)
    by (simp add: order_created_def order_created_try_def isValidShop_def Let_def present_def)
qed

text \<open>
  Claim C3 says that, for a region with a secret, a request without the header
  \<^verbatim>\<open>X-Flow-Secret\<close> gets status 401. \<^verbatim>\<open>tscEquals\<close> computes \<^verbatim>\<open>String(a) || ''\<close>, and
  \<^verbatim>\<open>String(undefined)\<close> is the string \<^verbatim>\<open>undefined\<close>: with that string as the secret, the
  request without the header passes the check and is served with status 200. The other
  variant of the server in the repository computes \<^verbatim>\<open>String(a || '')\<close>, which rejects it.
\<close>

theorem missing_header_accepted:
  "tscEquals None (Some ''undefined'')
   \<and> req_header request_without_header = None
   \<and> reply_status (fst (order_created (example_env ''undefined'' remote_ok)
                           request_without_header [])) = 200"
  by code_simp

section \<open>Context resolution\<close>

lemma shopifyGraphQL_log:
  "shopifyGraphQL e shp tok doc log = (Inr r, log') \<Longrightarrow>
     \<exists>host. log' = log @ [ShopifyGraphQL host (SHOPIFY_ADMIN_API_VERSION e) tok doc]"
  by (auto simp: shopifyGraphQL_def bind_io_def
           split: option.splits sum.splits if_splits prod.splits)

lemma getOrderById_log:
  "getOrderById e shp tok oid log = (Inr r, log') \<Longrightarrow> log' \<noteq> log"
  by (auto simp: getOrderById_def bind_io_Inr dest!: shopifyGraphQL_log)

text \<open>
  Claim C10. Whenever \<^verbatim>\<open>ensureOrderContext\<close> returns a context, its \<^verbatim>\<open>shopDomain\<close> is the
  input's, and each of \<^verbatim>\<open>orderId\<close>, \<^verbatim>\<open>orderName\<close>, \<^verbatim>\<open>customerId\<close>, \<^verbatim>\<open>email\<close> that was
  truthy in the input is truthy in the result, whatever the remote side answered.
\<close>

theorem ensureOrderContext_keeps:
  assumes "ensureOrderContext e c tok log = (Inr c', log')"
  shows "shopDomain c' = shopDomain c
     \<and> (truthy (orderId c) \<longrightarrow> truthy (orderId c'))
     \<and> (truthy (orderName c) \<longrightarrow> truthy (orderName c'))
     \<and> (truthy (customerId c) \<longrightarrow> truthy (customerId c'))
     \<and> (truthy (email c) \<longrightarrow> truthy (email c'))"
  using assms
  by (auto simp: ensureOrderContext_def bind_io_Inr split: if_splits)

theorem ensureOrderContext_keeps_witness:
  "ensureOrderContext (example_env ''S'' remote_ok) partial_context ''admin-token'' [] =
     (Inr \<lparr> shopDomain = JStr ''shop-uk.myshopify.com'',
            orderId = JStr ''gid://shopify/Order/1'', orderName = JStr ''#1001'',
            customerId = JStr ''gid://shopify/Customer/2'', email = JStr ''new@b.com'' \<rparr>,
      [ShopifyGraphQL ''shop-uk.myshopify.com'' ''2025-07'' ''admin-token''
         (OrdersByName ''name:#1001'')])
   \<and> shopDomain partial_context = JStr ''shop-uk.myshopify.com''
   \<and> truthy (orderName partial_context) \<and> truthy (JStr ''#1001'')
   \<and> truthy (customerId partial_context) \<and> truthy (JStr ''gid://shopify/Customer/2'')
   \<and> truthy (email partial_context) \<and> truthy (JStr ''new@b.com'')"
proof -
  have run: "ensureOrderContext (example_env ''S'' remote_ok) partial_context ''admin-token'' [] =
     (Inr \<lparr> shopDomain = JStr ''shop-uk.myshopify.com'',
            orderId = JStr ''gid://shopify/Order/1'', orderName = JStr ''#1001'',
            customerId = JStr ''gid://shopify/Customer/2'', email = JStr ''new@b.com'' \<rparr>,
      [ShopifyGraphQL ''shop-uk.myshopify.com'' ''2025-07'' ''admin-token''
         (OrdersByName ''name:#1001'')])"
    by code_simp
  from ensureOrderContext_keeps [OF run] run show ?thesis
    by (simp add: partial_context_def)
qed

text \<open>
  Claim C1 says that, in the branch where the order is looked up by name, a field that
  is truthy in the input keeps the input's value. It does not: every assignment of the
  branch is \<^verbatim>\<open>field = found?.field || field\<close>, so the lookup's value wins whenever it is
  truthy. Here the input holds customer 1 and the address \<^verbatim>\<open>old@b.com\<close>, the order found
  holds customer 2 and \<^verbatim>\<open>new@b.com\<close>, and the result holds the latter.
\<close>

theorem lookup_replaces_truthy_fields:
  "\<not> truthy (orderId partial_context) \<and> truthy (orderName partial_context)
   \<and> findOrderByName (example_env ''S'' remote_ok) (shopDomain partial_context) ''admin-token''
        (orderName partial_context) []
      = (Inr order_node,
         [ShopifyGraphQL ''shop-uk.myshopify.com'' ''2025-07'' ''admin-token''
            (OrdersByName ''name:#1001'')])
   \<and> truthy (customerId partial_context) \<and> truthy (email partial_context)
   \<and> customerId partial_context = JStr ''gid://shopify/Customer/1''
   \<and> email partial_context = JStr ''old@b.com''
   \<and> ensureOrderContext (example_env ''S'' remote_ok) partial_context ''admin-token'' [] =
       (Inr \<lparr> shopDomain = JStr ''shop-uk.myshopify.com'',
              orderId = JStr ''gid://shopify/Order/1'', orderName = JStr ''#1001'',
              customerId = JStr ''gid://shopify/Customer/2'', email = JStr ''new@b.com'' \<rparr>,
        [ShopifyGraphQL ''shop-uk.myshopify.com'' ''2025-07'' ''admin-token''
           (OrdersByName ''name:#1001'')])"
  by code_simp

text \<open>
  Claim C1, amended. In that branch (\<^verbatim>\<open>orderId\<close> falsy, \<^verbatim>\<open>orderName\<close> truthy, the lookup
  returning \<open>found\<close>) the returned context takes, for each of \<^verbatim>\<open>orderId\<close>, \<^verbatim>\<open>customerId\<close>
  and \<^verbatim>\<open>email\<close>, the lookup's value whenever that value is truthy, whether or not the
  input's field was truthy; the input's value is kept where the lookup's value is falsy
  and the input's is truthy. The same holds for \<^verbatim>\<open>orderName\<close> when no fetch by id
  follows the lookup.
\<close>

theorem ensureOrderContext_lookup_wins:
  assumes "\<not> truthy (orderId c)" and "truthy (orderName c)"
    and "findOrderByName e (shopDomain c) tok (orderName c) log = (Inr found, log1)"
    and "ensureOrderContext e c tok log = (Inr c', log')"
  shows "orderId c' = js_or (get_prop found ''id'') (orderId c)
     \<and> (truthy (get_prop (get_prop found ''customer'') ''id'') \<longrightarrow>
          customerId c' = get_prop (get_prop found ''customer'') ''id'')
     \<and> (\<not> truthy (get_prop (get_prop found ''customer'') ''id'') \<and> truthy (customerId c) \<longrightarrow>
          customerId c' = customerId c)
     \<and> (truthy (get_prop found ''email'') \<longrightarrow> email c' = get_prop found ''email'')
     \<and> (\<not> truthy (get_prop found ''email'') \<and> truthy (email c) \<longrightarrow> email c' = email c)
     \<and> (log' = log1 \<longrightarrow> orderName c' = js_or (get_prop found ''name'') (orderName c))"
  using assms
  by (auto simp: ensureOrderContext_def bind_io_Inr js_or_truthy js_or_falsy
           dest: getOrderById_log split: if_splits)

theorem ensureOrderContext_lookup_wins_witness:
  "findOrderByName (example_env ''S'' remote_ok) (shopDomain partial_context)
       ''admin-token'' (orderName partial_context) []
     = (Inr order_node,
        [ShopifyGraphQL ''shop-uk.myshopify.com'' ''2025-07'' ''admin-token''
           (OrdersByName ''name:#1001'')])
   \<and> ensureOrderContext (example_env ''S'' remote_ok) partial_context ''admin-token'' []
     = (Inr \<lparr> shopDomain = JStr ''shop-uk.myshopify.com'',
              orderId = JStr ''gid://shopify/Order/1'', orderName = JStr ''#1001'',
              customerId = JStr ''gid://shopify/Customer/2'', email = JStr ''new@b.com'' \<rparr>,
        [ShopifyGraphQL ''shop-uk.myshopify.com'' ''2025-07'' ''admin-token''
           (OrdersByName ''name:#1001'')])
   \<and> JStr ''gid://shopify/Order/1'' = js_or (get_prop order_node ''id'') (orderId partial_context)
   \<and> JStr ''gid://shopify/Customer/2'' = get_prop (get_prop order_node ''customer'') ''id''
   \<and> JStr ''new@b.com'' = get_prop order_node ''email''
   \<and> JStr ''#1001'' = js_or (get_prop order_node ''name'') (orderName partial_context)"
proof -
  let ?log = "[ShopifyGraphQL ''shop-uk.myshopify.com'' ''2025-07'' ''admin-token''
                 (OrdersByName ''name:#1001'')]"
  let ?c' = "\<lparr> shopDomain = JStr ''shop-uk.myshopify.com'',
               orderId = JStr ''gid://shopify/Order/1'', orderName = JStr ''#1001'',
               customerId = JStr ''gid://shopify/Customer/2'', email = JStr ''new@b.com'' \<rparr>"
  have falsy: "\<not> truthy (orderId partial_context)" by code_simp
  have named: "truthy (orderName partial_context)" by code_simp
  have found: "findOrderByName (example_env ''S'' remote_ok) (shopDomain partial_context)
                 ''admin-token'' (orderName partial_context) [] = (Inr order_node, ?log)"
    by code_simp
  have run: "ensureOrderContext (example_env ''S'' remote_ok) partial_context ''admin-token'' []
               = (Inr ?c', ?log)"
    by code_simp
  have customer: "truthy (get_prop (get_prop order_node ''customer'') ''id'')" by code_simp
  have address: "truthy (get_prop order_node ''email'')" by code_simp
  from ensureOrderContext_lookup_wins [OF falsy named found run] found run customer address
  show ?thesis by simp
qed

section \<open>Tag derivation\<close>

lemma those_map_None:
  "those (map f xs) = None \<longleftrightarrow> (\<exists>x\<in>set xs. f x = None)"
  by (induction xs) (auto split: option.splits)

lemma those_map_Some:
  "those (map f xs) = Some ys \<Longrightarrow> x \<in> set xs \<Longrightarrow> \<exists>y. f x = Some y"
  using those_map_None [of f xs] by (cases "f x") auto

lemma those_map_Some_set:
  "those (map f xs) = Some ys \<Longrightarrow> set ys = {y. \<exists>x\<in>set xs. f x = Some y}"
  by (induction xs arbitrary: ys) (auto split: option.splits)

text \<open>
  The derivation throws exactly when some subscription cannot be printed, and otherwise
  gives the tags the subscriptions emit.
\<close>

lemma deriveTags_Inl:
  "deriveTags ms = Inl err \<longleftrightarrow> err = not_primitive \<and> (\<exists>m\<in>set ms. unprintable m)"
proof (cases "those (map id_tag ms)")
  case None
  then have "deriveTags ms = Inl not_primitive"
    by (simp add: deriveTags_def)
  moreover from None have "\<exists>m\<in>set ms. unprintable m"
    by (auto simp: those_map_None unprintable_def)
  ultimately show ?thesis by auto
next
  case (Some ids)
  note ids = this
  show ?thesis
  proof (cases "those (map cycles_tag (filter (\<lambda>m. \<not> nullish (billing_min_cycles m)) ms))")
    case None
    with ids have "deriveTags ms = Inl not_primitive"
      by (simp add: deriveTags_def)
    moreover from None have "\<exists>m\<in>set ms. unprintable m"
      by (auto simp: those_map_None unprintable_def)
    ultimately show ?thesis by auto
  next
    case (Some cycles)
    have "\<not> unprintable m" if "m \<in> set ms" for m
      using those_map_Some [OF ids that] those_map_Some [OF Some, of m] that
      by (auto simp: unprintable_def)
    then show ?thesis using ids Some
      by (auto simp: deriveTags_def)
  qed
qed

lemma deriveTags_Inr:
  "deriveTags ms = Inr tags \<Longrightarrow> set tags = {t. \<exists>m\<in>set ms. emits m t}"
  by (auto simp: deriveTags_def emits_def split: option.splits dest!: those_map_Some_set)

lemma deriveTags_set_cong:
  assumes "set xs = set ys"
  shows "map_sum id set (deriveTags xs) = map_sum id set (deriveTags ys)"
proof (cases "deriveTags xs")
  case (Inl err)
  then have "deriveTags ys = Inl err" using assms by (simp add: deriveTags_Inl)
  with Inl show ?thesis by simp
next
  case (Inr tags)
  show ?thesis
  proof (cases "deriveTags ys")
    case (Inl err)
    then have "deriveTags xs = Inl err" using assms by (simp add: deriveTags_Inl)
    with Inr show ?thesis by simp
  next
    case (Inr tags')
    with \<open>deriveTags xs = Inr tags\<close> assms show ?thesis
      by (simp add: deriveTags_Inr)
  qed
qed

text \<open>
  Claim C7. The tags derived from a list of subscription summaries and from any
  permutation of it are the same set (and the derivation throws for the one exactly when
  it throws for the other); the tags are those that the subscriptions emit, each its id
  tag and, unless its \<^verbatim>\<open>billing_min_cycles\<close> is \<^verbatim>\<open>null\<close> or absent, its min-cycles tag; a
  subscription whose \<^verbatim>\<open>billing_min_cycles\<close> is \<^verbatim>\<open>null\<close> or absent yields its id tag only.
\<close>

theorem deriveTags_order_independent:
  "(mset xs = mset ys \<longrightarrow> map_sum id set (deriveTags xs) = map_sum id set (deriveTags ys))
   \<and> (deriveTags xs = Inr tags \<longrightarrow>
        set tags = {t. \<exists>m\<in>set xs. id_tag m = Some t
                        \<or> (cycles_tag m = Some t \<and> \<not> nullish (billing_min_cycles m))})
   \<and> (nullish (billing_min_cycles m) \<longrightarrow>
        deriveTags [m] = (case id_tag m of None \<Rightarrow> Inl not_primitive | Some t \<Rightarrow> Inr [t]))"
proof (intro conjI impI)
  assume "mset xs = mset ys"
  then have "set xs = set ys" by (rule mset_eq_setD)
  then show "map_sum id set (deriveTags xs) = map_sum id set (deriveTags ys)"
    by (rule deriveTags_set_cong)
next
  assume "deriveTags xs = Inr tags"
  then show "set tags = {t. \<exists>m\<in>set xs. id_tag m = Some t
                        \<or> (cycles_tag m = Some t \<and> \<not> nullish (billing_min_cycles m))}"
    by (simp add: deriveTags_Inr emits_def)
next
  assume "nullish (billing_min_cycles m)"
  then show "deriveTags [m] = (case id_tag m of None \<Rightarrow> Inl not_primitive | Some t \<Rightarrow> Inr [t])"
    by (simp add: deriveTags_def split: option.splits)
qed

theorem deriveTags_order_independent_witness:
  "mset [summary_77, summary_78] = mset [summary_78, summary_77]
   \<and> deriveTags [summary_77, summary_78]
       = Inr [''seal_sub_id_77'', ''seal_sub_id_78'', ''seal_min_cycles_3'']
   \<and> deriveTags [summary_78, summary_77]
       = Inr [''seal_sub_id_78'', ''seal_sub_id_77'', ''seal_min_cycles_3'']
   \<and> map_sum id set (deriveTags [summary_77, summary_78])
       = map_sum id set (deriveTags [summary_78, summary_77])
   \<and> nullish (billing_min_cycles summary_78)
   \<and> deriveTags [summary_78] = Inr [''seal_sub_id_78'']"
proof -
  have perm: "mset [summary_77, summary_78] = mset [summary_78, summary_77]"
    by (simp add: add.commute)
  have absent: "nullish (billing_min_cycles summary_78)" by code_simp
  have one: "deriveTags [summary_77, summary_78]
       = Inr [''seal_sub_id_77'', ''seal_sub_id_78'', ''seal_min_cycles_3'']"
    by code_simp
  have other: "deriveTags [summary_78, summary_77]
       = Inr [''seal_sub_id_78'', ''seal_sub_id_77'', ''seal_min_cycles_3'']"
    by code_simp
  have tag: "id_tag summary_78 = Some ''seal_sub_id_78''" by code_simp
  from deriveTags_order_independent
         [of "[summary_77, summary_78]" "[summary_78, summary_77]" "[]" summary_78]
       perm absent one other tag
  show ?thesis by simp
qed

section \<open>The tag writer\<close>

text \<open>
  Claim C9. \<^verbatim>\<open>tagsAdd\<close> called with a tag list that is absent or empty returns the
  "skipped" result and leaves the list of outbound requests as it was, for every shop,
  token and target id (and every environment).
\<close>

theorem tagsAdd_nothing_to_add:
  "tagsAdd e shp tok gid None log = (Inr skipped, log)
   \<and> tagsAdd e shp tok gid (Some []) log = (Inr skipped, log)"
  by (simp add: tagsAdd_def)

theorem tagsAdd_nothing_to_add_witness:
  "tagsAdd (example_env ''S'' remote_ok) (JStr ''shop-uk.myshopify.com'') ''admin-token''
     (JStr ''gid://shopify/Order/1'') None [] = (Inr skipped, [])
   \<and> tagsAdd (example_env ''S'' remote_ok) (JStr ''shop-uk.myshopify.com'') ''admin-token''
     (JStr ''gid://shopify/Order/1'') (Some []) [] = (Inr skipped, [])"
  by (rule tagsAdd_nothing_to_add)

lemma foldl_set_add:
  "distinct acc \<Longrightarrow>
     distinct (foldl set_add acc ts) \<and> set (foldl set_add acc ts) = set acc \<union> set ts"
  by (induction ts arbitrary: acc) (auto simp: set_add_def)

lemma array_from_set_distinct: "distinct (array_from_set ts)"
  by (simp add: array_from_set_def foldl_set_add)

lemma array_from_set_set: "set (array_from_set ts) = set ts"
  by (simp add: array_from_set_def foldl_set_add)

lemma count_list_distinct:
  "distinct xs \<Longrightarrow> count_list xs x = (if x \<in> set xs then 1 else 0)"
  by (induction xs) auto

lemma show_int_3: "show_int 3 = ''3''"
  by code_simp

section \<open>Logs of outbound requests\<close>

lemma occurs_Nil [simp]: "\<not> occurs e ev []"
  by (simp add: occurs_def)

lemma occurs_snoc:
  "occurs e ev (log @ [c]) \<longleftrightarrow> occurs e ev log \<or> ev c (fetch_result e log c)"
proof
  assume "occurs e ev (log @ [c])"
  then obtain k where k: "k < Suc (length log)"
    and ev: "ev ((log @ [c]) ! k) (fetch_result e (take k (log @ [c])) ((log @ [c]) ! k))"
    by (auto simp: occurs_def answered_def)
  show "occurs e ev log \<or> ev c (fetch_result e log c)"
  proof (cases "k < length log")
    case True
    with ev have "ev (log ! k) (fetch_result e (take k log) (log ! k))"
      by (simp add: nth_append)
    with True show ?thesis by (auto simp: occurs_def answered_def)
  next
    case False
    with k have "k = length log" by simp
    with ev show ?thesis by simp
  qed
next
  assume "occurs e ev log \<or> ev c (fetch_result e log c)"
  then show "occurs e ev (log @ [c])"
  proof
    assume "occurs e ev log"
    then obtain k where "k < length log" "ev (log ! k) (fetch_result e (take k log) (log ! k))"
      by (auto simp: occurs_def answered_def)
    then have "k < length (log @ [c]) \<and> ev ((log @ [c]) ! k) (answered e (log @ [c]) k)"
      by (simp add: nth_append answered_def)
    then show ?thesis unfolding occurs_def by blast
  next
    assume "ev c (fetch_result e log c)"
    then have "length log < length (log @ [c]) \<and> ev ((log @ [c]) ! length log) (answered e (log @ [c]) (length log))"
      by (simp add: answered_def)
    then show ?thesis unfolding occurs_def by blast
  qed
qed

lemma occurs_append_kind:
  assumes "list_all K cs" and "\<And>c a. K c \<Longrightarrow> \<not> ev c a"
  shows "occurs e ev (log @ cs) = occurs e ev log"
  using assms(1)
proof (induction cs rule: rev_induct)
  case Nil
  then show ?case by simp
next
  case (snoc c cs)
  then have "occurs e ev ((log @ cs) @ [c]) = occurs e ev log"
    using assms(2) by (simp only: occurs_snoc) auto
  then show ?case by simp
qed

lemma extends_preserves:
  "extends_by K log log' \<Longrightarrow> (\<And>c a. K c \<Longrightarrow> \<not> ev c a) \<Longrightarrow> occurs e ev log' = occurs e ev log"
  by (auto simp: extends_by_def occurs_append_kind)

lemma extends_refl [simp]: "extends_by K log log"
  by (simp add: extends_by_def)

lemma extends_snoc: "K c \<Longrightarrow> extends_by K log (log @ [c])"
  by (simp add: extends_by_def)

lemma extends_trans:
  "extends_by K log log1 \<Longrightarrow> extends_by K log1 log2 \<Longrightarrow> extends_by K log log2"
  by (auto simp: extends_by_def)

lemma extends_mono:
  "extends_by K log log' \<Longrightarrow> (\<And>c. K c \<Longrightarrow> K' c) \<Longrightarrow> extends_by K' log log'"
  by (auto simp: extends_by_def list_all_iff)

lemma shopifyGraphQL_extends:
  "shopifyGraphQL e shp tok doc log = (res, log') \<Longrightarrow>
     extends_by (\<lambda>c. \<exists>h v t. c = ShopifyGraphQL h v t doc) log log'"
  by (auto simp: shopifyGraphQL_def bind_io_def extends_snoc
           split: option.splits sum.splits if_splits prod.splits)

lemma findOrderByName_extends:
  "findOrderByName e shp tok nm log = (res, log') \<Longrightarrow> extends_by is_lookup log log'"
  by (auto simp: findOrderByName_def bind_io_def is_lookup_def
           split: json.splits sum.splits prod.splits
           dest!: shopifyGraphQL_extends elim!: extends_mono)

lemma getOrderById_extends:
  "getOrderById e shp tok oid log = (res, log') \<Longrightarrow> extends_by is_lookup log log'"
  by (auto simp: getOrderById_def bind_io_def is_lookup_def
           split: sum.splits prod.splits
           dest!: shopifyGraphQL_extends elim!: extends_mono)

lemma ensureOrderContext_extends:
  "ensureOrderContext e c tok log = (res, log') \<Longrightarrow> extends_by is_lookup log log'"
  by (auto simp: ensureOrderContext_def bind_io_def
           split: if_splits sum.splits prod.splits
           dest!: findOrderByName_extends getOrderById_extends intro: extends_trans)


lemma sealSearchByEmail_extends:
  "sealSearchByEmail e em tok log = (res, log') \<Longrightarrow> extends_by is_search log log'"
  by (auto simp: sealSearchByEmail_def bind_io_def is_search_def extends_snoc Let_def
           split: option.splits sum.splits if_splits)

lemma sealGetById_extends:
  "sealGetById e i tok log = (res, log') \<Longrightarrow> extends_by is_detail log log'"
  by (auto simp: sealGetById_def bind_io_def is_detail_def extends_snoc Let_def
           split: option.splits sum.splits if_splits)

lemma map_sealGetById_extends:
  "map_sealGetById e tok ss log = (res, log') \<Longrightarrow> extends_by is_detail log log'"
proof (induction ss arbitrary: log res log')
  case Nil
  then show ?case by simp
next
  case (Cons s ss)
  show ?case
  proof (cases "prop_strict s ''id''")
    case (Inl err)
    with Cons.prems show ?thesis by simp
  next
    case (Inr i)
    obtain r log1 where one: "sealGetById e i tok log = (r, log1)"
      by (cases "sealGetById e i tok log")
    obtain rs log2 where rest: "map_sealGetById e tok ss log1 = (rs, log2)"
      by (cases "map_sealGetById e tok ss log1")
    from Cons.prems Inr one rest have "log' = log2"
      by (auto split: sum.splits)
    with sealGetById_extends [OF one] Cons.IH [OF rest] show ?thesis
      by (auto intro: extends_trans)
  qed
qed

lemma fetch_details_extends:
  "fetch_details e subs tok log = (res, log') \<Longrightarrow> extends_by is_detail log log'"
  by (auto simp: fetch_details_def bind_io_def
           split: json.splits sum.splits prod.splits dest: map_sealGetById_extends)

lemma tagsAdd_extends:
  "tagsAdd e shp tok gid tags log = (res, log') \<Longrightarrow> extends_by clean_tag_write log log'"
  by (auto simp: tagsAdd_def bind_io_def clean_tag_write_def is_tag_write_def tags_sent_def
                 array_from_set_distinct
           split: option.splits if_splits sum.splits prod.splits
           dest!: shopifyGraphQL_extends elim!: extends_mono)

lemma tag_writes_extends:
  "tag_writes e shp tok ensured tags log = (tr, log') \<Longrightarrow> extends_by clean_tag_write log log'"
  by (auto simp: tag_writes_def split: prod.splits if_splits
           dest!: tagsAdd_extends intro: extends_trans)

text \<open>
  A detail fetch that returns has not failed; a lookup that returns has parsed its answer.
\<close>

lemma sealGetById_Inr:
  "sealGetById e i tok log = (Inr d, log') \<Longrightarrow>
     occurs e detail_failed log' = occurs e detail_failed log"
  by (auto simp: sealGetById_def bind_io_def occurs_snoc detail_failed_def fetch_failed_def Let_def
           split: option.splits sum.splits if_splits)

lemma map_sealGetById_Inr:
  "map_sealGetById e tok ss log = (Inr ps, log') \<Longrightarrow> Promise_all ps = Inr ds \<Longrightarrow>
     occurs e detail_failed log' = occurs e detail_failed log"
proof (induction ss arbitrary: log ps ds)
  case Nil
  then show ?case by simp
next
  case (Cons s ss)
  show ?case
  proof (cases "prop_strict s ''id''")
    case (Inl err)
    with Cons.prems show ?thesis by simp
  next
    case (Inr i)
    obtain r log1 where one: "sealGetById e i tok log = (r, log1)"
      by (cases "sealGetById e i tok log")
    obtain rs log2 where rest: "map_sealGetById e tok ss log1 = (rs, log2)"
      by (cases "map_sealGetById e tok ss log1")
    from Cons.prems(1) Inr one rest obtain ps' where
      ps: "rs = Inr ps'" "ps = r # ps'" "log' = log2"
      by (auto split: sum.splits)
    from Cons.prems(2) ps obtain d ds' where
      d: "r = Inr d" "Promise_all ps' = Inr ds'"
      by (cases r) (auto split: sum.splits)
    from one d have "occurs e detail_failed log1 = occurs e detail_failed log"
      by (simp add: sealGetById_Inr)
    moreover from rest ps d have "occurs e detail_failed log2 = occurs e detail_failed log1"
      using Cons.IH by simp
    ultimately show ?thesis using ps by simp
  qed
qed

lemma fetch_details_Inr:
  "fetch_details e subs tok log = (Inr ds, log') \<Longrightarrow>
     occurs e detail_failed log' = occurs e detail_failed log"
  by (auto simp: fetch_details_def bind_io_def
           split: json.splits sum.splits prod.splits dest: map_sealGetById_Inr)

lemma shopifyGraphQL_Inr:
  "shopifyGraphQL e shp tok doc log = (Inr r, log') \<Longrightarrow>
     occurs e lookup_unparseable log' = occurs e lookup_unparseable log"
  by (auto simp: shopifyGraphQL_def bind_io_def occurs_snoc lookup_unparseable_def unparseable_def
           split: option.splits sum.splits if_splits)

lemma findOrderByName_Inr:
  "findOrderByName e shp tok nm log = (Inr r, log') \<Longrightarrow>
     occurs e lookup_unparseable log' = occurs e lookup_unparseable log"
  by (auto simp: findOrderByName_def bind_io_Inr split: json.splits dest: shopifyGraphQL_Inr)

lemma getOrderById_Inr:
  "getOrderById e shp tok oid log = (Inr r, log') \<Longrightarrow>
     occurs e lookup_unparseable log' = occurs e lookup_unparseable log"
  by (auto simp: getOrderById_def bind_io_Inr dest: shopifyGraphQL_Inr)

lemma ensureOrderContext_Inr:
  "ensureOrderContext e c tok log = (Inr c', log') \<Longrightarrow>
     occurs e lookup_unparseable log' = occurs e lookup_unparseable log"
  by (auto simp: ensureOrderContext_def bind_io_Inr split: if_splits
           dest: findOrderByName_Inr getOrderById_Inr)


section \<open>The structure of a run of the handler\<close>

lemma order_created_try_cases:
  assumes "order_created_try e req log = (res, log')"
  obtains (rejected) st msg where "res = Inr (error_reply st msg)" "log' = log" "st = 400 \<or> st = 401 \<or> st = 500"
    | (thrown) "res = Inl not_primitive" "log' = log"
    | (accepted) c reg where "resolve_and_tag e c reg log = (res, log')"
  using assms
  by (auto simp: order_created_try_def Let_def isValidShop_def
           split: if_splits sum.splits option.splits)

lemma resolve_and_tag_cases:
  assumes "resolve_and_tag e c reg log = (res, log')"
  obtains (unresolved) err where "ensureOrderContext e c (String_of (shopifyToken reg)) log = (Inl err, log')" "res = Inl err"
    | (incomplete) ensured msg where "ensureOrderContext e c (String_of (shopifyToken reg)) log = (Inr ensured, log')"
        "res = Inr (error_reply 400 msg)"
    | (complete) ensured log1 where "ensureOrderContext e c (String_of (shopifyToken reg)) log = (Inr ensured, log1)"
        "lookup_and_tag e (shopDomain c) reg ensured log1 = (res, log')"
  using assms
  by (auto simp: resolve_and_tag_def bind_io_def split: if_splits sum.splits prod.splits)

lemma lookup_and_tag_cases:
  assumes "lookup_and_tag e shp reg ensured log = (res, log')"
  obtains (search_failed) err where
      "sealSearchByEmail e (email ensured) (String_of (sealToken reg)) log = (Inl err, log')" "res = Inl err"
    | (details_failed) subs log1 err where
      "sealSearchByEmail e (email ensured) (String_of (sealToken reg)) log = (Inr subs, log1)"
      "fetch_details e subs (String_of (sealToken reg)) log1 = (Inl err, log')" "res = Inl err"
    | (derive_failed) subs log1 details err where
      "sealSearchByEmail e (email ensured) (String_of (sealToken reg)) log = (Inr subs, log1)"
      "fetch_details e subs (String_of (sealToken reg)) log1 = (Inr details, log')" "res = Inl err"
    | (tagged) subs log1 details log2 minimal tags tr where
      "sealSearchByEmail e (email ensured) (String_of (sealToken reg)) log = (Inr subs, log1)"
      "fetch_details e subs (String_of (sealToken reg)) log1 = (Inr details, log2)"
      "minimal_of details = Inr minimal" "deriveTags minimal = Inr tags"
      "tag_writes e shp (String_of (shopifyToken reg)) ensured tags log2 = (tr, log')"
      "res = Inr (success_reply shp ensured minimal tr)"
  using assms
  by (auto simp: lookup_and_tag_def bind_io_def split: sum.splits prod.splits)



text \<open>Every request of a run is of one of the four kinds.\<close>

lemma lookup_and_tag_extends:
  assumes "lookup_and_tag e shp reg ensured log = (res, log')"
  shows "extends_by (\<lambda>c. is_search c \<or> is_detail c \<or> clean_tag_write c) log log'"
  using assms
proof (cases rule: lookup_and_tag_cases)
  case (search_failed err)
  from sealSearchByEmail_extends [OF this(1)] show ?thesis
    by (rule extends_mono) simp
next
  case (details_failed subs log1 err)
  have "extends_by (\<lambda>c. is_search c \<or> is_detail c \<or> clean_tag_write c) log log1"
    using sealSearchByEmail_extends [OF details_failed(1)] by (rule extends_mono) simp
  moreover have "extends_by (\<lambda>c. is_search c \<or> is_detail c \<or> clean_tag_write c) log1 log'"
    using fetch_details_extends [OF details_failed(2)] by (rule extends_mono) simp
  ultimately show ?thesis by (rule extends_trans)
next
  case (derive_failed subs log1 details err)
  have "extends_by (\<lambda>c. is_search c \<or> is_detail c \<or> clean_tag_write c) log log1"
    using sealSearchByEmail_extends [OF derive_failed(1)] by (rule extends_mono) simp
  moreover have "extends_by (\<lambda>c. is_search c \<or> is_detail c \<or> clean_tag_write c) log1 log'"
    using fetch_details_extends [OF derive_failed(2)] by (rule extends_mono) simp
  ultimately show ?thesis by (rule extends_trans)
next
  case (tagged subs log1 details log2 minimal tags tr)
  have "extends_by (\<lambda>c. is_search c \<or> is_detail c \<or> clean_tag_write c) log log1"
    using sealSearchByEmail_extends [OF tagged(1)] by (rule extends_mono) simp
  moreover have "extends_by (\<lambda>c. is_search c \<or> is_detail c \<or> clean_tag_write c) log1 log2"
    using fetch_details_extends [OF tagged(2)] by (rule extends_mono) simp
  moreover have "extends_by (\<lambda>c. is_search c \<or> is_detail c \<or> clean_tag_write c) log2 log'"
    using tag_writes_extends [OF tagged(5)] by (rule extends_mono) simp
  ultimately show ?thesis by (blast intro: extends_trans)
qed

lemma resolve_and_tag_extends:
  assumes "resolve_and_tag e c reg log = (res, log')"
  shows "extends_by (\<lambda>c. is_lookup c \<or> is_search c \<or> is_detail c \<or> clean_tag_write c) log log'"
  using assms
proof (cases rule: resolve_and_tag_cases)
  case (unresolved err)
  from ensureOrderContext_extends [OF this(1)] show ?thesis
    by (rule extends_mono) simp
next
  case (incomplete ensured msg)
  from ensureOrderContext_extends [OF this(1)] show ?thesis
    by (rule extends_mono) simp
next
  case (complete ensured log1)
  have "extends_by (\<lambda>c. is_lookup c \<or> is_search c \<or> is_detail c \<or> clean_tag_write c) log log1"
    using ensureOrderContext_extends [OF complete(1)] by (rule extends_mono) simp
  moreover have "extends_by (\<lambda>c. is_lookup c \<or> is_search c \<or> is_detail c \<or> clean_tag_write c) log1 log'"
    using lookup_and_tag_extends [OF complete(2)] by (rule extends_mono) auto
  ultimately show ?thesis by (rule extends_trans)
qed

lemma order_created_try_extends:
  assumes "order_created_try e req log = (res, log')"
  shows "extends_by (\<lambda>c. is_lookup c \<or> is_search c \<or> is_detail c \<or> clean_tag_write c) log log'"
  using assms
proof (cases rule: order_created_try_cases)
  case (accepted c reg)
  then show ?thesis by (rule resolve_and_tag_extends)
qed simp_all

text \<open>
  A request for a configured shop that carries the region's secret, or whose region has
  no secret, is never answered 401.
\<close>

lemma resolve_and_tag_status:
  assumes "resolve_and_tag e c reg log = (Inr r, log')"
  shows "reply_status r = 400 \<or> reply_status r = 200"
  using assms
proof (cases rule: resolve_and_tag_cases)
  case (unresolved err)
  then show ?thesis by simp
next
  case (incomplete ensured msg)
  then show ?thesis by (simp add: error_reply_def)
next
  case (complete ensured log1)
  from complete(2) show ?thesis
    by (cases rule: lookup_and_tag_cases) (simp_all add: success_reply_def)
qed

lemma accepted_secret_passes:
  assumes "get_prop (js_or (req_body req) (JObj [])) ''shopDomain'' = JStr s"
    and "matches_shop s" and "byShop_get e (JStr s) = Some reg"
    and "\<not> present (flowSecret reg) \<or> req_header req = flowSecret reg"
  shows "reply_status (fst (order_created e req log)) \<noteq> 401"
proof -
  from assms(2) have s: "s \<noteq> []" by (auto simp: matches_shop_def)
  from assms(4) have pass: "\<not> (present (flowSecret reg)
                              \<and> \<not> tscEquals (req_header req) (flowSecret reg))"
    by (auto simp: tscEquals_iff)
  obtain res log' where run: "order_created_try e req log = (res, log')"
    by (cases "order_created_try e req log")
  show ?thesis
  proof (cases res)
    case (Inl err)
    with run show ?thesis by (simp add: order_created_def server_error_def)
  next
    case (Inr r)
    from run Inr assms(1-3) s pass
    have "reply_status r = 500 \<or> resolve_and_tag e
            \<lparr> shopDomain = JStr s,
              orderId = get_prop (js_or (req_body req) (JObj [])) ''orderId'',
              orderName = get_prop (js_or (req_body req) (JObj [])) ''orderName'',
              customerId = get_prop (js_or (req_body req) (JObj [])) ''customerId'',
              email = get_prop (js_or (req_body req) (JObj [])) ''email'' \<rparr> reg log = (Inr r, log')"
      by (auto simp: order_created_try_def isValidShop_def Let_def error_reply_def
               split: if_splits)
    with resolve_and_tag_status have "reply_status r \<noteq> 401" by fastforce
    with run Inr show ?thesis by (simp add: order_created_def)
  qed
qed

section \<open>Detail fetches that fail\<close>

lemma kinds_no_detail_failed:
  "is_lookup c \<Longrightarrow> \<not> detail_failed c a"
  "is_search c \<Longrightarrow> \<not> detail_failed c a"
  "clean_tag_write c \<Longrightarrow> \<not> detail_failed c a"
  by (auto simp: detail_failed_def is_detail_def is_lookup_def is_search_def clean_tag_write_def
                 is_tag_write_def split: call.splits)

lemma lookup_and_tag_Inr_details:
  assumes "lookup_and_tag e shp reg ensured log = (Inr r, log')"
  shows "occurs e detail_failed log' = occurs e detail_failed log"
  using assms
proof (cases rule: lookup_and_tag_cases)
  case (tagged subs log1 details log2 minimal tags tr)
  have "occurs e detail_failed log1 = occurs e detail_failed log"
    using sealSearchByEmail_extends [OF tagged(1)] by (rule extends_preserves) (rule kinds_no_detail_failed)
  moreover have "occurs e detail_failed log2 = occurs e detail_failed log1"
    using tagged(2) by (rule fetch_details_Inr)
  moreover have "occurs e detail_failed log' = occurs e detail_failed log2"
    using tag_writes_extends [OF tagged(5)] by (rule extends_preserves) (rule kinds_no_detail_failed)
  ultimately show ?thesis by simp
qed simp_all

lemma resolve_and_tag_Inr_details:
  assumes "resolve_and_tag e c reg log = (Inr r, log')"
  shows "occurs e detail_failed log' = occurs e detail_failed log"
  using assms
proof (cases rule: resolve_and_tag_cases)
  case (unresolved err)
  then show ?thesis by simp
next
  case (incomplete ensured msg)
  show ?thesis
    using ensureOrderContext_extends [OF incomplete(1)]
    by (rule extends_preserves) (rule kinds_no_detail_failed)
next
  case (complete ensured log1)
  have "occurs e detail_failed log1 = occurs e detail_failed log"
    using ensureOrderContext_extends [OF complete(1)]
    by (rule extends_preserves) (rule kinds_no_detail_failed)
  with lookup_and_tag_Inr_details [OF complete(2)] show ?thesis by simp
qed

lemma order_created_try_Inr_details:
  assumes "order_created_try e req log = (Inr r, log')"
  shows "occurs e detail_failed log' = occurs e detail_failed log"
  using assms
proof (cases rule: order_created_try_cases)
  case (accepted c reg)
  then show ?thesis by (rule resolve_and_tag_Inr_details)
qed simp_all

text \<open>
  Claim C5. If, in a run of the handler, the fetch of the detail of some subscription
  fails (the request is rejected or its status is not 2xx), the reply has status 500 and
  the body "Server error", which holds no \<^verbatim>\<open>subscriptions\<close>: no part of the subscription
  data is returned.
\<close>

theorem failed_detail_fails_request:
  assumes "order_created e req [] = (r, log)"
    and "k < length log" and "is_detail (log ! k)" and "fetch_failed (answered e log k)"
  shows "reply_status r = 500
     \<and> get_prop (reply_json r) ''error'' = JStr ''Server error''
     \<and> get_prop (reply_json r) ''subscriptions'' = JUndef"
proof -
  from assms(2-4) have occ: "occurs e detail_failed log"
    unfolding occurs_def detail_failed_def by blast
  obtain res log' where run: "order_created_try e req [] = (res, log')"
    by (cases "order_created_try e req []")
  show ?thesis
  proof (cases res)
    case (Inl err)
    with run assms(1) have "r = server_error e err"
      by (simp add: order_created_def)
    then show ?thesis by (simp add: server_error_reply)
  next
    case (Inr r')
    with run assms(1) have "log' = log"
      by (simp add: order_created_def)
    with run Inr have "occurs e detail_failed log = occurs e detail_failed []"
      using order_created_try_Inr_details by blast
    with occ show ?thesis by simp
  qed
qed


theorem failed_detail_fails_request_witness:
  "order_created (example_env ''S'' remote_detail_down) full_request []
     = (\<lparr> reply_status = 500, reply_json = JObj [(''error'', JStr ''Server error'')] \<rparr>,
        [SealSearch ''a@b.com'' ''seal-token'', SealGet ''77'' ''seal-token'',
         SealGet ''78'' ''seal-token''])
   \<and> is_detail (SealGet ''78'' ''seal-token'')
   \<and> fetch_failed (answered (example_env ''S'' remote_detail_down)
         [SealSearch ''a@b.com'' ''seal-token'', SealGet ''77'' ''seal-token'',
          SealGet ''78'' ''seal-token''] 2)
   \<and> get_prop (JObj [(''error'', JStr ''Server error'')]) ''subscriptions'' = JUndef"
proof -
  let ?log = "[SealSearch ''a@b.com'' ''seal-token'', SealGet ''77'' ''seal-token'',
               SealGet ''78'' ''seal-token'']"
  have run: "order_created (example_env ''S'' remote_detail_down) full_request []
     = (\<lparr> reply_status = 500, reply_json = JObj [(''error'', JStr ''Server error'')] \<rparr>, ?log)"
    by code_simp
  have k: "2 < length ?log" by simp
  have d: "is_detail (?log ! 2)" by code_simp
  have f: "fetch_failed (answered (example_env ''S'' remote_detail_down) ?log 2)"
    by code_simp
  from failed_detail_fails_request [OF run k d f] run d f show ?thesis by simp
qed

section \<open>The tags that are sent\<close>

lemma kinds_clean:
  "is_lookup c \<Longrightarrow> distinct (tags_sent c)"
  "is_search c \<Longrightarrow> distinct (tags_sent c)"
  "is_detail c \<Longrightarrow> distinct (tags_sent c)"
  "clean_tag_write c \<Longrightarrow> distinct (tags_sent c)"
  by (auto simp: is_detail_def is_lookup_def is_search_def clean_tag_write_def tags_sent_def
           split: call.splits graphql.splits)

text \<open>
  Claim C6. Every tag write that a run of the handler sends to the admin API carries a
  list of tags without duplicates; in particular, when two subscriptions both have
  \<^verbatim>\<open>billing_min_cycles\<close> 3, the list sent holds the tag \<^verbatim>\<open>seal_min_cycles_3\<close> exactly once.
\<close>

theorem sent_tags_deduplicated:
  "(order_created e req [] = (r, log) \<and> ShopifyGraphQL h v t (TagsAdd g ts) \<in> set log
      \<longrightarrow> distinct ts)
   \<and> (billing_min_cycles m1 = JNum 3 \<and> billing_min_cycles m2 = JNum 3
        \<and> deriveTags [m1, m2] = Inr tags
      \<longrightarrow> count_list (array_from_set tags) ''seal_min_cycles_3'' = 1)"
proof (intro conjI impI)
  assume a: "order_created e req [] = (r, log) \<and> ShopifyGraphQL h v t (TagsAdd g ts) \<in> set log"
  then obtain res where "order_created_try e req [] = (res, log)"
    using order_created_log by blast
  then have "extends_by (\<lambda>c. is_lookup c \<or> is_search c \<or> is_detail c \<or> clean_tag_write c) [] log"
    by (rule order_created_try_extends)
  then have "extends_by (\<lambda>c. distinct (tags_sent c)) [] log"
    by (rule extends_mono) (auto simp: kinds_clean)
  then have "\<forall>c\<in>set log. distinct (tags_sent c)"
    by (simp add: extends_by_def list_all_iff)
  with a have "distinct (tags_sent (ShopifyGraphQL h v t (TagsAdd g ts)))" by blast
  then show "distinct ts" by (simp add: tags_sent_def)
next
  assume b: "billing_min_cycles m1 = JNum 3 \<and> billing_min_cycles m2 = JNum 3
        \<and> deriveTags [m1, m2] = Inr tags"
  then have "''seal_min_cycles_3'' \<in> set tags"
    by (auto simp: deriveTags_def cycles_tag_def nullish_def show_int_3 split: option.splits)
  then show "count_list (array_from_set tags) ''seal_min_cycles_3'' = 1"
    by (simp add: count_list_distinct array_from_set_distinct array_from_set_set)
qed


theorem sent_tags_deduplicated_witness:
  "ShopifyGraphQL ''shop-uk.myshopify.com'' ''2025-07'' ''admin-token''
       (TagsAdd (JStr ''gid://shopify/Order/1'')
          [''seal_sub_id_77'', ''seal_sub_id_78'', ''seal_min_cycles_3''])
     \<in> set (snd (order_created (example_env ''S'' remote_ok) full_request []))
   \<and> distinct [''seal_sub_id_77'', ''seal_sub_id_78'', ''seal_min_cycles_3'']
   \<and> billing_min_cycles summary_77 = JNum 3 \<and> billing_min_cycles summary_79 = JNum 3
   \<and> deriveTags [summary_77, summary_79]
        = Inr [''seal_sub_id_77'', ''seal_sub_id_79'', ''seal_min_cycles_3'', ''seal_min_cycles_3'']
   \<and> array_from_set [''seal_sub_id_77'', ''seal_sub_id_79'', ''seal_min_cycles_3'',
                       ''seal_min_cycles_3'']
        = [''seal_sub_id_77'', ''seal_sub_id_79'', ''seal_min_cycles_3'']
   \<and> count_list (array_from_set [''seal_sub_id_77'', ''seal_sub_id_79'', ''seal_min_cycles_3'',
                                   ''seal_min_cycles_3'']) ''seal_min_cycles_3'' = 1"
proof -
  let ?run = "order_created (example_env ''S'' remote_ok) full_request []"
  have run: "?run = (fst ?run, snd ?run)" by simp
  have sent: "ShopifyGraphQL ''shop-uk.myshopify.com'' ''2025-07'' ''admin-token''
       (TagsAdd (JStr ''gid://shopify/Order/1'')
          [''seal_sub_id_77'', ''seal_sub_id_78'', ''seal_min_cycles_3''])
     \<in> set (snd ?run)"
    by code_simp
  have three: "billing_min_cycles summary_77 = JNum 3" "billing_min_cycles summary_79 = JNum 3"
    by code_simp+
  have tags: "deriveTags [summary_77, summary_79]
        = Inr [''seal_sub_id_77'', ''seal_sub_id_79'', ''seal_min_cycles_3'', ''seal_min_cycles_3'']"
    by code_simp
  have sends: "array_from_set [''seal_sub_id_77'', ''seal_sub_id_79'', ''seal_min_cycles_3'',
                       ''seal_min_cycles_3'']
        = [''seal_sub_id_77'', ''seal_sub_id_79'', ''seal_min_cycles_3'']"
    by code_simp
  from sent_tags_deduplicated
         [of "example_env ''S'' remote_ok" full_request "fst ?run" "snd ?run"
             "''shop-uk.myshopify.com''" "''2025-07''" "''admin-token''"
             "JStr ''gid://shopify/Order/1''"
             "[''seal_sub_id_77'', ''seal_sub_id_78'', ''seal_min_cycles_3'']"
             summary_77 summary_79
             "[''seal_sub_id_77'', ''seal_sub_id_79'', ''seal_min_cycles_3'', ''seal_min_cycles_3'']"]
       run sent three tags sends
  show ?thesis by simp
qed

section \<open>The two tag writes\<close>

lemma kinds_no_tag_written:
  "is_lookup c \<Longrightarrow> \<not> tag_written c a"
  "is_search c \<Longrightarrow> \<not> tag_written c a"
  "is_detail c \<Longrightarrow> \<not> tag_written c a"
  by (auto simp: tag_written_def is_tag_write_def is_detail_def is_lookup_def is_search_def
           split: call.splits graphql.splits)

lemma lookup_and_tag_written:
  assumes "lookup_and_tag e shp reg ensured log = (res, log')"
    and "occurs e tag_written log' \<noteq> occurs e tag_written log"
  shows "\<exists>minimal tags log1.
           res = Inr (success_reply shp ensured minimal
                        (fst (tag_writes e shp (String_of (shopifyToken reg)) ensured tags log1)))
           \<and> log' = snd (tag_writes e shp (String_of (shopifyToken reg)) ensured tags log1)"
  using assms(1)
proof (cases rule: lookup_and_tag_cases)
  case (search_failed err)
  have "occurs e tag_written log' = occurs e tag_written log"
    using sealSearchByEmail_extends [OF search_failed(1)]
    by (rule extends_preserves) (rule kinds_no_tag_written)
  with assms(2) show ?thesis by simp
next
  case (details_failed subs log1 err)
  have "occurs e tag_written log1 = occurs e tag_written log"
    using sealSearchByEmail_extends [OF details_failed(1)]
    by (rule extends_preserves) (rule kinds_no_tag_written)
  moreover have "occurs e tag_written log' = occurs e tag_written log1"
    using fetch_details_extends [OF details_failed(2)]
    by (rule extends_preserves) (rule kinds_no_tag_written)
  ultimately show ?thesis using assms(2) by simp
next
  case (derive_failed subs log1 details err)
  have "occurs e tag_written log1 = occurs e tag_written log"
    using sealSearchByEmail_extends [OF derive_failed(1)]
    by (rule extends_preserves) (rule kinds_no_tag_written)
  moreover have "occurs e tag_written log' = occurs e tag_written log1"
    using fetch_details_extends [OF derive_failed(2)]
    by (rule extends_preserves) (rule kinds_no_tag_written)
  ultimately show ?thesis using assms(2) by simp
next
  case (tagged subs log1 details log2 minimal tags tr)
  then have "res = Inr (success_reply shp ensured minimal
                        (fst (tag_writes e shp (String_of (shopifyToken reg)) ensured tags log2)))
           \<and> log' = snd (tag_writes e shp (String_of (shopifyToken reg)) ensured tags log2)"
    by simp
  then show ?thesis by blast
qed

lemma resolve_and_tag_written:
  assumes "resolve_and_tag e c reg log = (res, log')"
    and "occurs e tag_written log' \<noteq> occurs e tag_written log"
  shows "\<exists>ensured minimal tags log1.
           res = Inr (success_reply (shopDomain c) ensured minimal
                        (fst (tag_writes e (shopDomain c) (String_of (shopifyToken reg)) ensured tags log1)))
           \<and> log' = snd (tag_writes e (shopDomain c) (String_of (shopifyToken reg)) ensured tags log1)"
  using assms(1)
proof (cases rule: resolve_and_tag_cases)
  case (unresolved err)
  have "occurs e tag_written log' = occurs e tag_written log"
    using ensureOrderContext_extends [OF unresolved(1)]
    by (rule extends_preserves) (rule kinds_no_tag_written)
  with assms(2) show ?thesis by simp
next
  case (incomplete ensured msg)
  have "occurs e tag_written log' = occurs e tag_written log"
    using ensureOrderContext_extends [OF incomplete(1)]
    by (rule extends_preserves) (rule kinds_no_tag_written)
  with assms(2) show ?thesis by simp
next
  case (complete ensured log1)
  have "occurs e tag_written log1 = occurs e tag_written log"
    using ensureOrderContext_extends [OF complete(1)]
    by (rule extends_preserves) (rule kinds_no_tag_written)
  with assms(2) have "occurs e tag_written log' \<noteq> occurs e tag_written log1" by simp
  from lookup_and_tag_written [OF complete(2) this] show ?thesis by blast
qed

lemma order_created_try_written:
  assumes "order_created_try e req log = (res, log')"
    and "occurs e tag_written log' \<noteq> occurs e tag_written log"
  shows "\<exists>shp tok ensured minimal tags log1.
           res = Inr (success_reply shp ensured minimal
                        (fst (tag_writes e shp tok ensured tags log1)))
           \<and> log' = snd (tag_writes e shp tok ensured tags log1)"
  using assms(1)
proof (cases rule: order_created_try_cases)
  case (rejected st msg)
  with assms(2) show ?thesis by simp
next
  case thrown
  with assms(2) show ?thesis by simp
next
  case (accepted c reg)
  from resolve_and_tag_written [OF accepted assms(2)] show ?thesis by blast
qed

lemma occurs_tag_written:
  "occurs e tag_written log \<longleftrightarrow> (\<exists>c\<in>set log. is_tag_write c)"
  by (auto simp: occurs_def tag_written_def in_set_conv_nth intro: nth_mem)

lemma tag_writes_order:
  "get_prop (fst (tag_writes e shp tok ensured tags log)) ''order'' =
     caught ''order tagging failed'' (fst (tagsAdd e shp tok (orderId ensured) (Some tags) log))"
  by (simp add: tag_writes_def split: prod.splits)

lemma tag_writes_customer:
  "truthy (customerId ensured) \<Longrightarrow>
   get_prop (fst (tag_writes e shp tok ensured tags log)) ''customer'' =
     caught ''customer tagging failed''
       (fst (tagsAdd e shp tok (customerId ensured) (Some tags)
              (snd (tagsAdd e shp tok (orderId ensured) (Some tags) log))))"
  by (simp add: tag_writes_def split: prod.splits)

text \<open>
  Claim C4. The result recorded for the order is the outcome of the write on the order
  alone, and the result recorded for the customer is the outcome of the write on the
  customer alone, which is attempted after the write on the order whatever that one did;
  an outcome that is an exception is recorded as an object \<^verbatim>\<open>{error}\<close>, any other as it
  is. A run of the handler that has sent a tag write replies with status 200 and with
  the results of the two writes as its \<^verbatim>\<open>tagResults\<close>.
\<close>

theorem tag_writes_independent:
  "get_prop (fst (tag_writes e shp tok ensured tags log)) ''order'' =
     caught ''order tagging failed'' (fst (tagsAdd e shp tok (orderId ensured) (Some tags) log))
   \<and> (truthy (customerId ensured) \<longrightarrow>
        get_prop (fst (tag_writes e shp tok ensured tags log)) ''customer'' =
          caught ''customer tagging failed''
            (fst (tagsAdd e shp tok (customerId ensured) (Some tags)
                   (snd (tagsAdd e shp tok (orderId ensured) (Some tags) log)))))
   \<and> caught fallback (Inl err) =
        JObj [(''error'', JStr (if message err \<noteq> [] then message err else fallback))]
   \<and> caught fallback (Inr v) = v
   \<and> (order_created e req [] = (r, log') \<and> (\<exists>c\<in>set log'. is_tag_write c) \<longrightarrow>
        reply_status r = 200
        \<and> (\<exists>shp' tok' ensured' tags' log1.
              get_prop (reply_json r) ''tagResults'' =
                fst (tag_writes e shp' tok' ensured' tags' log1)
              \<and> log' = snd (tag_writes e shp' tok' ensured' tags' log1)))"
proof (intro conjI impI)
  assume a: "order_created e req [] = (r, log') \<and> (\<exists>c\<in>set log'. is_tag_write c)"
  then obtain res where run: "order_created_try e req [] = (res, log')"
    using order_created_log by blast
  from a have "occurs e tag_written log' \<noteq> occurs e tag_written []"
    by (simp add: occurs_tag_written)
  from order_created_try_written [OF run this] obtain shp' tok' ensured' minimal tags' log1
    where res: "res = Inr (success_reply shp' ensured' minimal
                        (fst (tag_writes e shp' tok' ensured' tags' log1)))"
      and log: "log' = snd (tag_writes e shp' tok' ensured' tags' log1)"
    by blast
  from a run res have r: "r = success_reply shp' ensured' minimal
                        (fst (tag_writes e shp' tok' ensured' tags' log1))"
    by (simp add: order_created_def)
  then show "reply_status r = 200" by (simp add: success_reply_def)
  from r have "get_prop (reply_json r) ''tagResults'' =
                fst (tag_writes e shp' tok' ensured' tags' log1)"
    by (simp add: success_reply_def)
  with log show "\<exists>shp' tok' ensured' tags' log1.
              get_prop (reply_json r) ''tagResults'' =
                fst (tag_writes e shp' tok' ensured' tags' log1)
              \<and> log' = snd (tag_writes e shp' tok' ensured' tags' log1)"
    by blast
qed (simp_all add: tag_writes_order tag_writes_customer caught_def)


theorem tag_writes_independent_witness:
  "reply_status (fst (order_created (example_env ''S'' remote_customer_down) full_request [])) = 200
   \<and> get_prop (reply_json (fst (order_created (example_env ''S'' remote_customer_down)
                                   full_request []))) ''tagResults''
       = JObj [(''order'', JObj [(''userErrors'', JArr [])]),
               (''customer'', JObj [(''error'', JStr ''fetch failed'')])]
   \<and> caught ''customer tagging failed'' (Inl (JsError ''TypeError'' ''fetch failed''))
       = JObj [(''error'', JStr ''fetch failed'')]
   \<and> caught ''order tagging failed'' (Inr (JObj [(''userErrors'', JArr [])]))
       = JObj [(''userErrors'', JArr [])]"
proof -
  let ?run = "order_created (example_env ''S'' remote_customer_down) full_request []"
  have run: "?run = (fst ?run, snd ?run)" by simp
  have written: "\<exists>c\<in>set (snd ?run). is_tag_write c" by code_simp
  have status: "reply_status (fst ?run) = 200" by code_simp
  have results: "get_prop (reply_json (fst ?run)) ''tagResults''
       = JObj [(''order'', JObj [(''userErrors'', JArr [])]),
               (''customer'', JObj [(''error'', JStr ''fetch failed'')])]"
    by code_simp
  from tag_writes_independent
         [of "example_env ''S'' remote_customer_down" "JStr ''shop-uk.myshopify.com''"
             "''admin-token''" partial_context "[]" "[]" "''customer tagging failed''"
             "JsError ''TypeError'' ''fetch failed''" "JObj [(''userErrors'', JArr [])]"
             full_request "fst ?run" "snd ?run"]
       run written status results
  show ?thesis by (simp add: caught_def)
qed

section \<open>Bodies that do not parse\<close>

lemma kinds_no_lookup_unparseable:
  "is_search c \<Longrightarrow> \<not> lookup_unparseable c a"
  "is_detail c \<Longrightarrow> \<not> lookup_unparseable c a"
  "clean_tag_write c \<Longrightarrow> \<not> lookup_unparseable c a"
  by (auto simp: lookup_unparseable_def is_lookup_def is_search_def is_detail_def
                 clean_tag_write_def is_tag_write_def
           split: call.splits graphql.splits)

lemma kinds_no_search_unparseable:
  "is_lookup c \<Longrightarrow> \<not> search_unparseable c a"
  "is_detail c \<Longrightarrow> \<not> search_unparseable c a"
  "clean_tag_write c \<Longrightarrow> \<not> search_unparseable c a"
  by (auto simp: search_unparseable_def is_lookup_def is_search_def is_detail_def
                 clean_tag_write_def is_tag_write_def
           split: call.splits graphql.splits)

lemma lookup_and_tag_lookups:
  assumes "lookup_and_tag e shp reg ensured log = (res, log')"
  shows "occurs e lookup_unparseable log' = occurs e lookup_unparseable log"
  using lookup_and_tag_extends [OF assms]
  by (rule extends_preserves) (auto simp: kinds_no_lookup_unparseable)

lemma order_created_try_Inr_lookups:
  assumes "order_created_try e req log = (Inr r, log')"
  shows "occurs e lookup_unparseable log' = occurs e lookup_unparseable log"
  using assms
proof (cases rule: order_created_try_cases)
  case (accepted c reg)
  then show ?thesis
  proof (cases rule: resolve_and_tag_cases)
    case (unresolved err)
    then show ?thesis by simp
  next
    case (incomplete ensured msg)
    then show ?thesis by (simp add: ensureOrderContext_Inr)
  next
    case (complete ensured log1)
    then show ?thesis
      by (simp add: ensureOrderContext_Inr lookup_and_tag_lookups)
  qed
qed simp_all

lemma sealSearchByEmail_unparseable:
  assumes "sealSearchByEmail e em tok log = (res, log1)"
    and "occurs e search_unparseable log1 \<noteq> occurs e search_unparseable log"
  shows "res = Inr (JArr []) \<and> (\<exists>c. log1 = log @ [c])"
  using assms
  by (auto simp: sealSearchByEmail_def bind_io_def occurs_snoc search_unparseable_def
                 unparseable_def fetch_failed_def safeJson_def is_array_def js_coalesce_def
                 nullish_def Let_def
           split: option.splits sum.splits if_splits)

lemma lookup_and_tag_no_subscriptions:
  assumes "sealSearchByEmail e (email ensured) (String_of (sealToken reg)) log = (Inr (JArr []), log1)"
  shows "lookup_and_tag e shp reg ensured log =
           (Inr (success_reply shp ensured []
                   (JObj ((''order'', skipped)
                          # (if truthy (customerId ensured) then [(''customer'', skipped)] else [])))),
            log1)"
  using assms
  by (simp add: lookup_and_tag_def bind_io_def fetch_details_def deriveTags_def tag_writes_def
                tagsAdd_def caught_def)

lemma lookup_and_tag_search_unparseable:
  assumes "lookup_and_tag e shp reg ensured log = (res, log')"
    and "occurs e search_unparseable log' \<noteq> occurs e search_unparseable log"
  shows "(\<exists>tr. res = Inr (success_reply shp ensured [] tr)) \<and> (\<exists>c. log' = log @ [c])"
proof -
  obtain sres log1 where search:
    "sealSearchByEmail e (email ensured) (String_of (sealToken reg)) log = (sres, log1)"
    by (cases "sealSearchByEmail e (email ensured) (String_of (sealToken reg)) log")
  show ?thesis
  proof (cases "occurs e search_unparseable log1 = occurs e search_unparseable log")
    case False
    from sealSearchByEmail_unparseable [OF search False]
    have sres: "sres = Inr (JArr [])" and log1: "\<exists>c. log1 = log @ [c]" by simp_all
    from search sres assms(1) lookup_and_tag_no_subscriptions [of e ensured reg log log1 shp]
    have "res = Inr (success_reply shp ensured []
                   (JObj ((''order'', skipped)
                          # (if truthy (customerId ensured) then [(''customer'', skipped)] else []))))
          \<and> log' = log1"
      by simp
    with log1 show ?thesis by blast
  next
    case True
    have "occurs e search_unparseable log' = occurs e search_unparseable log1"
      using assms(1)
    proof (cases rule: lookup_and_tag_cases)
      case (search_failed err)
      with search show ?thesis by simp
    next
      case (details_failed subs l1 err)
      with search have "fetch_details e subs (String_of (sealToken reg)) log1 = (Inl err, log')"
        by simp
      from fetch_details_extends [OF this] show ?thesis
        by (rule extends_preserves) (rule kinds_no_search_unparseable)
    next
      case (derive_failed subs l1 details err)
      with search have "fetch_details e subs (String_of (sealToken reg)) log1 = (Inr details, log')"
        by simp
      from fetch_details_extends [OF this] show ?thesis
        by (rule extends_preserves) (rule kinds_no_search_unparseable)
    next
      case (tagged subs l1 details log2 minimal tags tr)
      with search have d: "fetch_details e subs (String_of (sealToken reg)) log1 = (Inr details, log2)"
        by simp
      have "occurs e search_unparseable log2 = occurs e search_unparseable log1"
        using fetch_details_extends [OF d]
        by (rule extends_preserves) (rule kinds_no_search_unparseable)
      moreover have "occurs e search_unparseable log' = occurs e search_unparseable log2"
        using tag_writes_extends [OF tagged(5)]
        by (rule extends_preserves) (rule kinds_no_search_unparseable)
      ultimately show ?thesis by simp
    qed
    with True assms(2) show ?thesis by simp
  qed
qed

lemma order_created_try_search_unparseable:
  assumes "order_created_try e req log = (res, log')"
    and "occurs e search_unparseable log' \<noteq> occurs e search_unparseable log"
  shows "(\<exists>shp ensured tr. res = Inr (success_reply shp ensured [] tr))
     \<and> (\<exists>c log1. log' = log1 @ [c]
           \<and> occurs e search_unparseable log1 = occurs e search_unparseable log)"
  using assms(1)
proof (cases rule: order_created_try_cases)
  case (rejected st msg)
  with assms(2) show ?thesis by simp
next
  case thrown
  with assms(2) show ?thesis by simp
next
  case (accepted c reg)
  then show ?thesis
  proof (cases rule: resolve_and_tag_cases)
    case (unresolved err)
    have "occurs e search_unparseable log' = occurs e search_unparseable log"
      using ensureOrderContext_extends [OF unresolved(1)]
      by (rule extends_preserves) (rule kinds_no_search_unparseable)
    with assms(2) show ?thesis by simp
  next
    case (incomplete ensured msg)
    have "occurs e search_unparseable log' = occurs e search_unparseable log"
      using ensureOrderContext_extends [OF incomplete(1)]
      by (rule extends_preserves) (rule kinds_no_search_unparseable)
    with assms(2) show ?thesis by simp
  next
    case (complete ensured log1)
    have "occurs e search_unparseable log1 = occurs e search_unparseable log"
      using ensureOrderContext_extends [OF complete(1)]
      by (rule extends_preserves) (rule kinds_no_search_unparseable)
    with assms(2) have "occurs e search_unparseable log' \<noteq> occurs e search_unparseable log1"
      by simp
    from lookup_and_tag_search_unparseable [OF complete(2) this]
      \<open>occurs e search_unparseable log1 = occurs e search_unparseable log\<close>
    show ?thesis by blast
  qed
qed

lemma occurs_prefix:
  "k < length log1 \<Longrightarrow> ev ((log1 @ cs) ! k) (answered e (log1 @ cs) k) \<Longrightarrow> occurs e ev log1"
  unfolding occurs_def answered_def by (auto simp: nth_append)

text \<open>
  Claim C2 says that a body that does not parse, from either remote API, makes the
  request fail with status 500, and that a 2xx answer to the subscription search with
  such a body does not lead to a 200. Here the search is answered with status 200 and
  a web page, and the reply has status 200.
\<close>

theorem unparseable_search_is_served:
  "answered (example_env ''S'' remote_bad_search) [SealSearch ''a@b.com'' ''seal-token''] 0
     = Inr \<lparr> resp_status = 200, resp_text = ''<html>'', resp_json = None \<rparr>
   \<and> snd (order_created (example_env ''S'' remote_bad_search) full_request [])
     = [SealSearch ''a@b.com'' ''seal-token'']
   \<and> reply_status (fst (order_created (example_env ''S'' remote_bad_search) full_request []))
     = 200"
  by code_simp

text \<open>
  Claim C2, amended. An answer of the admin API to an order lookup (by name or by id)
  whose body does not parse makes the request fail with status 500. A 2xx answer to the
  subscription search whose body does not parse does not: \<^verbatim>\<open>safeJson\<close> reads it as the
  empty object, the list of subscriptions is empty, the search is the last outbound
  request, and the reply has status 200 with an empty \<^verbatim>\<open>subscriptions\<close>.
\<close>

theorem unparseable_bodies:
  "(order_created e req [] = (r, log) \<and> k < length log
      \<and> is_lookup (log ! k) \<and> unparseable (answered e log k)
      \<longrightarrow> reply_status r = 500)
   \<and> (order_created e req [] = (r, log) \<and> k < length log
      \<and> is_search (log ! k) \<and> unparseable (answered e log k) \<and> \<not> fetch_failed (answered e log k)
      \<longrightarrow> reply_status r = 200 \<and> get_prop (reply_json r) ''subscriptions'' = JArr []
          \<and> Suc k = length log)"
proof (intro conjI impI)
  assume a: "order_created e req [] = (r, log) \<and> k < length log
      \<and> is_lookup (log ! k) \<and> unparseable (answered e log k)"
  then have occ: "occurs e lookup_unparseable log"
    unfolding occurs_def lookup_unparseable_def by blast
  obtain res log' where run: "order_created_try e req [] = (res, log')"
    by (cases "order_created_try e req []")
  show "reply_status r = 500"
  proof (cases res)
    case (Inl err)
    with run a have "r = server_error e err" by (simp add: order_created_def)
    then show ?thesis by (simp add: server_error_def)
  next
    case (Inr r')
    with run a have "log' = log" by (simp add: order_created_def)
    with run Inr have "occurs e lookup_unparseable log = occurs e lookup_unparseable []"
      using order_created_try_Inr_lookups by blast
    with occ show ?thesis by simp
  qed
next
  assume a: "order_created e req [] = (r, log) \<and> k < length log
      \<and> is_search (log ! k) \<and> unparseable (answered e log k) \<and> \<not> fetch_failed (answered e log k)"
  then have occ: "occurs e search_unparseable log \<noteq> occurs e search_unparseable []"
    unfolding occurs_def search_unparseable_def by auto
  from a obtain res where run: "order_created_try e req [] = (res, log)"
    using order_created_log by blast
  from order_created_try_search_unparseable [OF run occ]
  obtain shp ensured tr c log1 where res: "res = Inr (success_reply shp ensured [] tr)"
    and log: "log = log1 @ [c]"
    and before: "\<not> occurs e search_unparseable log1"
    by auto
  from a run res have r: "r = success_reply shp ensured [] tr"
    by (simp add: order_created_def)
  have last: "Suc k = length log"
  proof (rule ccontr)
    assume "Suc k \<noteq> length log"
    with a log have k: "k < length log1" by simp
    from a log have "search_unparseable ((log1 @ [c]) ! k) (answered e (log1 @ [c]) k)"
      by (simp add: search_unparseable_def)
    with k have "occurs e search_unparseable log1" by (rule occurs_prefix)
    with before show False by simp
  qed
  from r show "reply_status r = 200"
    by (simp add: success_reply_def)
  from r show "get_prop (reply_json r) ''subscriptions'' = JArr []"
    by (simp add: success_reply_def)
  from last show "Suc k = length log" .
qed

theorem unparseable_bodies_witness:
  "snd (order_created (example_env ''S'' remote_bad_lookup) request_by_name [])
     = [ShopifyGraphQL ''shop-uk.myshopify.com'' ''2025-07'' ''admin-token''
          (OrdersByName ''name:#1001'')]
   \<and> unparseable (answered (example_env ''S'' remote_bad_lookup)
        [ShopifyGraphQL ''shop-uk.myshopify.com'' ''2025-07'' ''admin-token''
           (OrdersByName ''name:#1001'')] 0)
   \<and> reply_status (fst (order_created (example_env ''S'' remote_bad_lookup) request_by_name []))
     = 500
   \<and> snd (order_created (example_env ''S'' remote_bad_search) full_request [])
     = [SealSearch ''a@b.com'' ''seal-token'']
   \<and> unparseable (answered (example_env ''S'' remote_bad_search)
        [SealSearch ''a@b.com'' ''seal-token''] 0)
   \<and> reply_status (fst (order_created (example_env ''S'' remote_bad_search) full_request []))
     = 200
   \<and> get_prop (reply_json (fst (order_created (example_env ''S'' remote_bad_search)
                                   full_request []))) ''subscriptions'' = JArr []"
proof -
  let ?lookup = "order_created (example_env ''S'' remote_bad_lookup) request_by_name []"
  let ?asked = "[ShopifyGraphQL ''shop-uk.myshopify.com'' ''2025-07'' ''admin-token''
                   (OrdersByName ''name:#1001'')]"
  let ?search = "order_created (example_env ''S'' remote_bad_search) full_request []"
  let ?searched = "[SealSearch ''a@b.com'' ''seal-token'']"
  have run1: "?lookup = (fst ?lookup, ?asked)" by code_simp
  have k1: "0 < length ?asked" by simp
  have kind1: "is_lookup (?asked ! 0)" by code_simp
  have bad1: "unparseable (answered (example_env ''S'' remote_bad_lookup) ?asked 0)"
    by code_simp
  have run2: "?search = (fst ?search, ?searched)" by code_simp
  have k2: "0 < length ?searched" by simp
  have kind2: "is_search (?searched ! 0)" by code_simp
  have bad2: "unparseable (answered (example_env ''S'' remote_bad_search) ?searched 0)"
    by code_simp
  have ok2: "\<not> fetch_failed (answered (example_env ''S'' remote_bad_search) ?searched 0)"
    by code_simp
  have log1: "snd ?lookup = ?asked" using run1 by (metis snd_conv)
  have log2: "snd ?search = ?searched" using run2 by (metis snd_conv)
  from unparseable_bodies
         [of "example_env ''S'' remote_bad_lookup" request_by_name "fst ?lookup" ?asked 0]
       run1 k1 kind1 bad1
  have "reply_status (fst ?lookup) = 500" by blast
  moreover
  from unparseable_bodies
         [of "example_env ''S'' remote_bad_search" full_request "fst ?search" ?searched 0]
       run2 k2 kind2 bad2 ok2
  have "reply_status (fst ?search) = 200
        \<and> get_prop (reply_json (fst ?search)) ''subscriptions'' = JArr []"
    by blast
  ultimately show ?thesis using log1 log2 bad1 bad2 by simp
qed

end
